theory Spec2Isabelle
  imports Complex_Main
begin

section \<open>JavaScript numbers of bloch-sphere.js\<close>

text \<open>
  The visualizer computes with JavaScript numbers (IEEE doubles). The model takes a
  finite number as a real number, so \<open>Math.PI\<close> is \<open>pi\<close> and \<open>Math.cos\<close> is \<open>cos\<close>:
  rounding error and signed zeros are not part of it. Where a property depends on the
  rounding (an exact equality, the end of a range, the zero of a cosine), the methods
  are read again in the section on double precision, with the rounding of each
  operation written out, and the property is settled there. The one value that is not a
  finite number and that the program can reach is kept: \<open>NaN\<close>. Arithmetic on it
  gives \<open>NaN\<close> and every comparison with it is false, as in JavaScript. Infinities
  are left out: the only divisors of the program are the constants 2 and 180 and the
  duration of a transition, which no caller passes (it is always the default 1000).
\<close>

datatype jsnum = Number real | NaN

fun js_add :: "jsnum \<Rightarrow> jsnum \<Rightarrow> jsnum" where
  "js_add (Number x) (Number y) = Number (x + y)"
| "js_add _ _ = NaN"

fun js_sub :: "jsnum \<Rightarrow> jsnum \<Rightarrow> jsnum" where
  "js_sub (Number x) (Number y) = Number (x - y)"
| "js_sub _ _ = NaN"

fun js_mul :: "jsnum \<Rightarrow> jsnum \<Rightarrow> jsnum" where
  "js_mul (Number x) (Number y) = Number (x * y)"
| "js_mul _ _ = NaN"

text \<open>Division, for the non-zero divisors of the program (see above).\<close>

fun js_div :: "jsnum \<Rightarrow> jsnum \<Rightarrow> jsnum" where
  "js_div (Number x) (Number y) = Number (x / y)"
| "js_div _ _ = NaN"

fun js_neg :: "jsnum \<Rightarrow> jsnum" where
  "js_neg (Number x) = Number (- x)"
| "js_neg _ = NaN"

text \<open>
  The remainder operator \<open>%\<close>: the quotient is truncated towards zero, so the result has
  the sign of the dividend; a zero divisor gives \<open>NaN\<close>.
\<close>

definition trunc :: "real \<Rightarrow> int" where
  "trunc r = (if 0 \<le> r then \<lfloor>r\<rfloor> else \<lceil>r\<rceil>)"

definition fmod :: "real \<Rightarrow> real \<Rightarrow> real" where
  "fmod x y = x - y * of_int (trunc (x / y))"

fun js_rem :: "jsnum \<Rightarrow> jsnum \<Rightarrow> jsnum" where
  "js_rem (Number x) (Number y) = (if y = 0 then NaN else Number (fmod x y))"
| "js_rem _ _ = NaN"

fun js_lt :: "jsnum \<Rightarrow> jsnum \<Rightarrow> bool" where
  "js_lt (Number x) (Number y) = (x < y)"
| "js_lt _ _ = False"

fun js_gt :: "jsnum \<Rightarrow> jsnum \<Rightarrow> bool" where
  "js_gt (Number x) (Number y) = (x > y)"
| "js_gt _ _ = False"

fun Math_abs :: "jsnum \<Rightarrow> jsnum" where
  "Math_abs (Number x) = Number \<bar>x\<bar>"
| "Math_abs _ = NaN"

fun Math_cos :: "jsnum \<Rightarrow> jsnum" where
  "Math_cos (Number x) = Number (cos x)"
| "Math_cos _ = NaN"

fun Math_sin :: "jsnum \<Rightarrow> jsnum" where
  "Math_sin (Number x) = Number (sin x)"
| "Math_sin _ = NaN"

fun Math_exp :: "jsnum \<Rightarrow> jsnum" where
  "Math_exp (Number x) = Number (exp x)"
| "Math_exp _ = NaN"

fun Math_acos :: "jsnum \<Rightarrow> jsnum" where
  "Math_acos (Number x) = (if - 1 \<le> x \<and> x \<le> 1 then Number (arccos x) else NaN)"
| "Math_acos _ = NaN"

text \<open>
  \<open>Math.atan2(y, x)\<close>: the angle of the point \<open>(x, y)\<close> in \<open>(-pi, pi]\<close>, and 0 at the
  origin.
\<close>

definition atan2 :: "real \<Rightarrow> real \<Rightarrow> real" where
  "atan2 y x =
     (if 0 < x then arctan (y / x)
      else if x < 0 then (if 0 \<le> y then arctan (y / x) + pi else arctan (y / x) - pi)
      else if 0 < y then pi / 2
      else if y < 0 then - (pi / 2)
      else 0)"

fun Math_atan2 :: "jsnum \<Rightarrow> jsnum \<Rightarrow> jsnum" where
  "Math_atan2 (Number y) (Number x) = Number (atan2 y x)"
| "Math_atan2 _ _ = NaN"

subsection \<open>Number.prototype.toFixed\<close>

text \<open>The decimal digits of a natural number.\<close>

definition digit_char :: "nat \<Rightarrow> char" where
  "digit_char d = ''0123456789'' ! d"

function decimal :: "nat \<Rightarrow> string" where
  "decimal n = (if n < 10 then [digit_char n] else decimal (n div 10) @ [digit_char (n mod 10)])"
  by pat_completeness auto
termination
  by (relation "measure id") auto

declare decimal.simps [simp del]

text \<open>
  \<open>x.toFixed(3)\<close>: the sign, then the integer \<open>n\<close> nearest to \<open>|x| * 1000\<close> (the larger
  one of two that are equally near), written with at least four digits and a point
  before the last three. \<open>NaN\<close> is written \<open>NaN\<close>. From \<open>10^21\<close> on JavaScript
  switches to the exponent notation, which is not modelled: the program formats
  amplitudes only, which are at most 1 in absolute value.
\<close>

fun toFixed3 :: "jsnum \<Rightarrow> string" where
  "toFixed3 (Number x) =
     (let n = nat \<lfloor>\<bar>x\<bar> * 1000 + 1 / 2\<rfloor>;
          m = decimal n;
          m' = replicate (4 - length m) (CHR ''0'') @ m
      in (if x < 0 then ''-'' else []) @
         take (length m' - 3) m' @ ''.'' @ drop (length m' - 3) m')"
| "toFixed3 NaN = ''NaN''"

section \<open>The visualizer and its transition animator\<close>

text \<open>
  \<open>animateToState\<close> builds the closure \<open>animate\<close> over its arguments and over the
  angles and the time at the call, and hands it to \<open>requestAnimationFrame\<close>. A
  \<open>transition\<close> is that closure's captured variables; \<open>frameRequests\<close> are the closures
  waiting for the next animation frame. Times are what \<open>Date.now()\<close> returned,
  in milliseconds.
\<close>

record transition =
  startTheta :: jsnum
  startPhi :: jsnum
  startTime :: real
  targetTheta :: jsnum
  targetPhi :: jsnum
  duration :: real

record visualizer =
  theta :: jsnum
  phi :: jsnum
  isAnimating :: bool
  frameRequests :: "transition list"

text \<open>The constructor: the state \<open>|0>\<close>, no animation.\<close>

definition initial :: visualizer where
  "initial = \<lparr>theta = Number 0, phi = Number 0, isAnimating = False, frameRequests = []\<rparr>"

definition default_duration :: real where
  "default_duration = 1000"

definition animateToState :: "jsnum \<Rightarrow> jsnum \<Rightarrow> real \<Rightarrow> real \<Rightarrow> visualizer \<Rightarrow> visualizer" where
  "animateToState tTheta tPhi dur now s =
     (if isAnimating s then s
      else s\<lparr>isAnimating := True,
              frameRequests := frameRequests s @
                [\<lparr>startTheta = theta s, startPhi = phi s, startTime = now,
                  targetTheta = tTheta, targetPhi = tPhi, duration = dur\<rparr>]\<rparr>)"

text \<open>One call of the closure \<open>animate\<close>, at the time \<open>now\<close>.\<close>

definition progress :: "transition \<Rightarrow> real \<Rightarrow> real" where
  "progress c now = min ((now - startTime c) / duration c) 1"

definition eased :: "transition \<Rightarrow> real \<Rightarrow> real" where
  "eased c now = 1 - (1 - progress c now) ^ 3"

definition animate :: "transition \<Rightarrow> real \<Rightarrow> visualizer \<Rightarrow> visualizer" where
  "animate c now s =
     (let s' = s\<lparr>theta := js_add (startTheta c)
                     (js_mul (js_sub (targetTheta c) (startTheta c)) (Number (eased c now))),
                  phi := js_add (startPhi c)
                     (js_mul (js_sub (targetPhi c) (startPhi c)) (Number (eased c now)))\<rparr>
      in if progress c now < 1
         then s'\<lparr>frameRequests := frameRequests s' @ [c]\<rparr>
         else s'\<lparr>isAnimating := False\<rparr>)"

text \<open>
  An animation frame at the time \<open>now\<close>: the browser runs the closures that were
  waiting; what they request waits for the next frame.
\<close>

definition animationFrame :: "real \<Rightarrow> visualizer \<Rightarrow> visualizer" where
  "animationFrame now s =
     foldl (\<lambda>s' c. animate c now s') (s\<lparr>frameRequests := []\<rparr>) (frameRequests s)"

subsection \<open>Sliders\<close>

text \<open>
  The \<open>input\<close> listeners of the two sliders; \<open>v\<close> is \<open>parseFloat(e.target.value)\<close>.
\<close>

definition thetaSliderInput :: "jsnum \<Rightarrow> visualizer \<Rightarrow> visualizer" where
  "thetaSliderInput v s = s\<lparr>theta := js_div (js_mul v (Number pi)) (Number 180)\<rparr>"

definition phiSliderInput :: "jsnum \<Rightarrow> visualizer \<Rightarrow> visualizer" where
  "phiSliderInput v s = s\<lparr>phi := js_div (js_mul v (Number pi)) (Number 180)\<rparr>"

subsection \<open>Presets\<close>

text \<open>
  \<open>states\<close> is an object literal, so \<open>states[state]\<close> finds its six own properties
  and, for any other key, what the literal inherits from \<open>Object.prototype\<close>: the
  standard methods, the accessor \<open>__proto__\<close> and the four legacy accessor helpers.
  Each inherited value is a function or an object, which the test \<open>if (states[state])\<close>
  takes as true, and none has a \<open>theta\<close> or a \<open>phi\<close>: both read as \<open>undefined\<close>.
  \<open>animateToState\<close> uses its targets only in \<open>targetTheta - startTheta\<close> and
  \<open>targetPhi - startPhi\<close>, where \<open>undefined\<close> counts as \<open>NaN\<close>; the model passes
  \<open>NaN\<close> for it.
\<close>

definition states :: "(string \<times> jsnum \<times> jsnum) list" where
  "states =
     [(''ground'', Number 0, Number 0),
      (''excited'', Number pi, Number 0),
      (''plus'', Number (pi / 2), Number 0),
      (''minus'', Number (pi / 2), Number pi),
      (''right'', Number (pi / 2), Number (pi / 2)),
      (''left'', Number (pi / 2), Number (3 * pi / 2))]"

definition Object_prototype :: "string list" where
  "Object_prototype =
     [''constructor'', ''hasOwnProperty'', ''isPrototypeOf'', ''propertyIsEnumerable'',
      ''toLocaleString'', ''toString'', ''valueOf'', ''__proto__'',
      ''__defineGetter__'', ''__defineSetter__'', ''__lookupGetter__'', ''__lookupSetter__'']"

definition setPresetState :: "string \<Rightarrow> real \<Rightarrow> visualizer \<Rightarrow> visualizer" where
  "setPresetState state now s =
     (case map_of states state of
        Some (t, p) \<Rightarrow> animateToState t p default_duration now s
      | None \<Rightarrow>
          if state \<in> set Object_prototype
          then animateToState NaN NaN default_duration now s
          else s)"

subsection \<open>Gates\<close>

text \<open>
  Each gate method computes \<open>newTheta\<close> and \<open>newPhi\<close> from the current angles and
  passes them to \<open>animateToState\<close>. The computation is given a name of its own here
  (the angles the method requests), so that it can be applied twice.
\<close>

definition pauliX_angles :: "jsnum \<times> jsnum \<Rightarrow> jsnum \<times> jsnum" where
  "pauliX_angles a =
     (js_sub (Number pi) (fst a), js_rem (js_add (snd a) (Number pi)) (Number (2 * pi)))"

definition pauliY_angles :: "jsnum \<times> jsnum \<Rightarrow> jsnum \<times> jsnum" where
  "pauliY_angles a =
     (let newTheta = js_sub (Number pi) (fst a);
          newPhi = js_rem (js_sub (Number pi) (snd a)) (Number (2 * pi))
      in (newTheta,
          if js_lt newPhi (Number 0) then js_add newPhi (Number (2 * pi)) else newPhi))"

definition pauliZ_angles :: "jsnum \<times> jsnum \<Rightarrow> jsnum \<times> jsnum" where
  "pauliZ_angles a = (fst a, js_rem (js_add (snd a) (Number pi)) (Number (2 * pi)))"

definition hadamard_angles :: "jsnum \<times> jsnum \<Rightarrow> jsnum \<times> jsnum" where
  "hadamard_angles a =
     (if js_lt (Math_abs (fst a)) (Number (1 / 10 ^ 10)) then (Number (pi / 2), Number 0)
      else if js_lt (Math_abs (js_sub (fst a) (Number pi))) (Number (1 / 10 ^ 10))
      then (Number (pi / 2), Number pi)
      else
        let x = js_mul (Math_sin (fst a)) (Math_cos (snd a));
            y = js_mul (Math_sin (fst a)) (Math_sin (snd a));
            z = Math_cos (fst a);
            x2 = z;
            y2 = js_neg y;
            z2 = x;
            newTheta = Math_acos z2;
            newPhi = Math_atan2 y2 x2
        in (newTheta,
            if js_lt newPhi (Number 0) then js_add newPhi (Number (2 * pi)) else newPhi))"

definition applyPauliX :: "real \<Rightarrow> visualizer \<Rightarrow> visualizer" where
  "applyPauliX now s =
     (case pauliX_angles (theta s, phi s) of
        (newTheta, newPhi) \<Rightarrow> animateToState newTheta newPhi default_duration now s)"

definition applyPauliY :: "real \<Rightarrow> visualizer \<Rightarrow> visualizer" where
  "applyPauliY now s =
     (case pauliY_angles (theta s, phi s) of
        (newTheta, newPhi) \<Rightarrow> animateToState newTheta newPhi default_duration now s)"

definition applyPauliZ :: "real \<Rightarrow> visualizer \<Rightarrow> visualizer" where
  "applyPauliZ now s =
     (case pauliZ_angles (theta s, phi s) of
        (newTheta, newPhi) \<Rightarrow> animateToState newTheta newPhi default_duration now s)"

definition applyHadamard :: "real \<Rightarrow> visualizer \<Rightarrow> visualizer" where
  "applyHadamard now s =
     (case hadamard_angles (theta s, phi s) of
        (newTheta, newPhi) \<Rightarrow> animateToState newTheta newPhi default_duration now s)"

text \<open>
  \<open>gates\<close> is an object literal too. For an inherited key \<open>gates[gate]()\<close> calls a
  method of \<open>Object.prototype\<close> with no argument, which changes nothing; the call
  throws a \<open>TypeError\<close> where the value is not a function (\<open>__proto__\<close>) and where the
  method rejects a missing accessor function.
\<close>

datatype js_error = TypeError

definition applyQuantumGate :: "string \<Rightarrow> real \<Rightarrow> visualizer \<Rightarrow> js_error + visualizer" where
  "applyQuantumGate gate now s =
     (if gate = ''x'' then Inr (applyPauliX now s)
      else if gate = ''y'' then Inr (applyPauliY now s)
      else if gate = ''z'' then Inr (applyPauliZ now s)
      else if gate = ''h'' then Inr (applyHadamard now s)
      else if gate \<in> set [''__proto__'', ''__defineGetter__'', ''__defineSetter__'']
      then Inl TypeError
      else Inr s)"

subsection \<open>Measurement and reset\<close>

text \<open>
  The callback that \<open>performMeasurement\<close> hands to \<open>setTimeout\<close>; \<open>sample\<close> is what
  \<open>Math.random()\<close> returned. The result is the outcome shown by \<open>alert\<close> and the new
  state.
\<close>

definition prob0 :: "visualizer \<Rightarrow> jsnum" where
  "prob0 s = (let c = Math_cos (js_div (theta s) (Number 2)) in js_mul c c)"

definition performMeasurement :: "real \<Rightarrow> real \<Rightarrow> visualizer \<Rightarrow> nat \<times> visualizer" where
  "performMeasurement sample now s =
     (let measurement = (if js_lt (Number sample) (prob0 s) then 0 else 1 :: nat)
      in (measurement,
          if measurement = 0
          then animateToState (Number 0) (Number 0) default_duration now s
          else animateToState (Number pi) (Number 0) default_duration now s))"

definition resetState :: "real \<Rightarrow> visualizer \<Rightarrow> visualizer" where
  "resetState now s = animateToState (Number 0) (Number 0) default_duration now s"

subsection \<open>The state display\<close>

text \<open>The class \<open>Complex\<close> of the program, with its fields \<open>real\<close> and \<open>imag\<close>.\<close>

record Complex_js =
  real_js :: jsnum
  imag_js :: jsnum

definition Complex_exp :: "Complex_js \<Rightarrow> Complex_js" where
  "Complex_exp z =
     (let r = Math_exp (real_js z)
      in \<lparr>real_js = js_mul r (Math_cos (imag_js z)), imag_js = js_mul r (Math_sin (imag_js z))\<rparr>)"

definition Complex_scale :: "Complex_js \<Rightarrow> jsnum \<Rightarrow> Complex_js" where
  "Complex_scale z s = \<lparr>real_js = js_mul (real_js z) s, imag_js = js_mul (imag_js z) s\<rparr>"

definition formatComplex :: "jsnum \<Rightarrow> jsnum \<Rightarrow> string" where
  "formatComplex re im =
     (if js_lt (Math_abs im) (Number (1 / 10 ^ 10)) then toFixed3 re
      else
        let realStr = (if js_lt (Math_abs re) (Number (1 / 10 ^ 10)) then [] else toFixed3 re);
            imagStr =
              (if js_lt (Math_abs (js_sub im (Number 1))) (Number (1 / 10 ^ 10)) then ''i''
               else if js_lt (Math_abs (js_add im (Number 1))) (Number (1 / 10 ^ 10)) then ''-i''
               else toFixed3 im @ ''i'')
        in if realStr = [] then imagStr
           else if js_gt im (Number 0) then realStr @ '' + '' @ imagStr
           else realStr @ '' - '' @ drop 1 imagStr)"

definition alpha :: "visualizer \<Rightarrow> Complex_js" where
  "alpha s = \<lparr>real_js = Math_cos (js_div (theta s) (Number 2)), imag_js = Number 0\<rparr>"

definition beta :: "visualizer \<Rightarrow> Complex_js" where
  "beta s =
     Complex_scale (Complex_exp \<lparr>real_js = Number 0, imag_js = phi s\<rparr>)
       (Math_sin (js_div (theta s) (Number 2)))"

text \<open>
  The text that \<open>updateStateDisplay\<close> writes into the element \<open>state-coords\<close>, in
  UTF-8: \<open>psi\<close> is the Greek letter and \<open>rangle\<close> the closing bracket of a ket.
\<close>

definition psi :: string where
  "psi = [CHR 0xCF, CHR 0x88]"

definition rangle :: string where
  "rangle = [CHR 0xE2, CHR 0x9F, CHR 0xA9]"

definition updateStateDisplay :: "visualizer \<Rightarrow> string" where
  "updateStateDisplay s =
     (let alphaStr = formatComplex (real_js (alpha s)) (imag_js (alpha s));
          betaStr = formatComplex (real_js (beta s)) (imag_js (beta s))
      in ''|'' @ psi @ rangle @ '' = '' @ alphaStr @ ''|0'' @ rangle @ '' + ('' @ betaStr @
         '')|1'' @ rangle)"

subsection \<open>The event loop\<close>

text \<open>
  What the page can do to a visualizer: each event is a listener or a callback of the
  program, run to completion at the time \<open>now\<close>. A gate click that throws leaves the
  state as it was.
\<close>

datatype event =
    ThetaInput jsnum
  | PhiInput jsnum
  | PresetClick string
  | GateClick string
  | MeasureTimeout real
  | ResetClick
  | AnimationFrame

fun step :: "visualizer \<Rightarrow> real \<times> event \<Rightarrow> visualizer" where
  "step s (now, ThetaInput v) = thetaSliderInput v s"
| "step s (now, PhiInput v) = phiSliderInput v s"
| "step s (now, PresetClick state) = setPresetState state now s"
| "step s (now, GateClick gate) =
     (case applyQuantumGate gate now s of Inl e \<Rightarrow> s | Inr s' \<Rightarrow> s')"
| "step s (now, MeasureTimeout sample) = snd (performMeasurement sample now s)"
| "step s (now, ResetClick) = resetState now s"
| "step s (now, AnimationFrame) = animationFrame now s"

definition run :: "(real \<times> event) list \<Rightarrow> visualizer" where
  "run evs = foldl step initial evs"

section \<open>Double precision\<close>

text \<open>
  A JavaScript number is an IEEE 754 double: a sign, a significand of 53 bits and a power
  of two. Each of \<open>+\<close>, \<open>-\<close>, \<open>*\<close> and \<open>/\<close> returns the double nearest to the exact
  result, and of two that are equally near the one with the even significand.
  \<open>round_double x\<close> is that double: for \<open>2^e \<le> |x| < 2^(e + 1)\<close> it is the multiple of
  \<open>2^(e - 52)\<close> nearest to \<open>x\<close>. The exponent is not bounded (no overflow to \<open>Infinity\<close>, no
  subnormal numbers): the numbers of this section are angles, sines and cosines and their
  products.
\<close>

definition round_even :: "real \<Rightarrow> int" where
  "round_even x =
     (let f = \<lfloor>x\<rfloor>
      in if x - of_int f < 1 / 2 then f
         else if 1 / 2 < x - of_int f then f + 1
         else if even f then f else f + 1)"

definition pow2 :: "int \<Rightarrow> real" where
  "pow2 k = 2 powr of_int k"

definition round_double :: "real \<Rightarrow> real" where
  "round_double x =
     (if x = 0 then 0
      else let e = \<lfloor>log 2 \<bar>x\<bar>\<rfloor> - 52 in of_int (round_even (x / pow2 e)) * pow2 e)"

text \<open>\<open>Math.PI\<close> is the double nearest to \<open>pi\<close>, \<open>0x1.921FB54442D18p+1\<close>.\<close>

definition Math_PI :: real where
  "Math_PI = 7074237752028440 / 2 ^ 51"

fun js_add_double :: "jsnum \<Rightarrow> jsnum \<Rightarrow> jsnum" where
  "js_add_double (Number x) (Number y) = Number (round_double (x + y))"
| "js_add_double _ _ = NaN"

fun js_sub_double :: "jsnum \<Rightarrow> jsnum \<Rightarrow> jsnum" where
  "js_sub_double (Number x) (Number y) = Number (round_double (x - y))"
| "js_sub_double _ _ = NaN"

fun js_mul_double :: "jsnum \<Rightarrow> jsnum \<Rightarrow> jsnum" where
  "js_mul_double (Number x) (Number y) = Number (round_double (x * y))"
| "js_mul_double _ _ = NaN"

fun js_div_double :: "jsnum \<Rightarrow> jsnum \<Rightarrow> jsnum" where
  "js_div_double (Number x) (Number y) = Number (round_double (x / y))"
| "js_div_double _ _ = NaN"

text \<open>
  The remainder of two doubles is a double, so \<open>%\<close> does not round: it is \<open>js_rem\<close>. So are
  the unary minus (\<open>js_neg\<close>), \<open>Math.abs\<close> and the comparisons. The language leaves the
  precision of \<open>Math.sin\<close>, \<open>Math.cos\<close>, \<open>Math.acos\<close>, \<open>Math.atan2\<close> and \<open>**\<close> to the
  implementation; they are taken as correctly rounded: the double nearest to the exact
  value at the double argument.

  A zero has no sign here. The program could tell the two zeros apart in one place only:
  \<open>Math.atan2(-0, x)\<close> is \<open>-Math.PI\<close> for a negative \<open>x\<close>, where \<open>Math.atan2(0, x)\<close> is
  \<open>Math.PI\<close>. The next statement of \<open>applyHadamard\<close>, \<open>if (newPhi < 0) newPhi += 2 * Math.PI\<close>,
  turns \<open>-Math.PI\<close> into \<open>Math.PI\<close>, so \<open>newPhi\<close> is the same number for both zeros.
\<close>

fun Math_cos_double :: "jsnum \<Rightarrow> jsnum" where
  "Math_cos_double (Number x) = Number (round_double (cos x))"
| "Math_cos_double _ = NaN"

fun Math_sin_double :: "jsnum \<Rightarrow> jsnum" where
  "Math_sin_double (Number x) = Number (round_double (sin x))"
| "Math_sin_double _ = NaN"

fun Math_acos_double :: "jsnum \<Rightarrow> jsnum" where
  "Math_acos_double (Number x) =
     (if - 1 \<le> x \<and> x \<le> 1 then Number (round_double (arccos x)) else NaN)"
| "Math_acos_double _ = NaN"

fun Math_atan2_double :: "jsnum \<Rightarrow> jsnum \<Rightarrow> jsnum" where
  "Math_atan2_double (Number y) (Number x) = Number (round_double (atan2 y x))"
| "Math_atan2_double _ _ = NaN"

subsection \<open>The slider listeners, the presets and the gates in double precision\<close>

definition thetaSliderInput_double :: "jsnum \<Rightarrow> visualizer \<Rightarrow> visualizer" where
  "thetaSliderInput_double v s =
     s\<lparr>theta := js_div_double (js_mul_double v (Number Math_PI)) (Number 180)\<rparr>"

definition phiSliderInput_double :: "jsnum \<Rightarrow> visualizer \<Rightarrow> visualizer" where
  "phiSliderInput_double v s =
     s\<lparr>phi := js_div_double (js_mul_double v (Number Math_PI)) (Number 180)\<rparr>"



definition pauliY_angles_double :: "jsnum \<times> jsnum \<Rightarrow> jsnum \<times> jsnum" where
  "pauliY_angles_double a =
     (let newTheta = js_sub_double (Number Math_PI) (fst a);
          newPhi = js_rem (js_sub_double (Number Math_PI) (snd a))
            (js_mul_double (Number 2) (Number Math_PI))
      in (newTheta,
          if js_lt newPhi (Number 0)
          then js_add_double newPhi (js_mul_double (Number 2) (Number Math_PI))
          else newPhi))"


definition hadamard_angles_double :: "jsnum \<times> jsnum \<Rightarrow> jsnum \<times> jsnum" where
  "hadamard_angles_double a =
     (if js_lt (Math_abs (fst a)) (Number (round_double (1 / 10 ^ 10)))
      then (js_div_double (Number Math_PI) (Number 2), Number 0)
      else if js_lt (Math_abs (js_sub_double (fst a) (Number Math_PI)))
          (Number (round_double (1 / 10 ^ 10)))
      then (js_div_double (Number Math_PI) (Number 2), Number Math_PI)
      else
        let x = js_mul_double (Math_sin_double (fst a)) (Math_cos_double (snd a));
            y = js_mul_double (Math_sin_double (fst a)) (Math_sin_double (snd a));
            z = Math_cos_double (fst a);
            x2 = z;
            y2 = js_neg y;
            z2 = x;
            newTheta = Math_acos_double z2;
            newPhi = Math_atan2_double y2 x2
        in (newTheta,
            if js_lt newPhi (Number 0)
            then js_add_double newPhi (js_mul_double (Number 2) (Number Math_PI))
            else newPhi))"

subsection \<open>Measurement in double precision\<close>

definition prob0_double :: "visualizer \<Rightarrow> jsnum" where
  "prob0_double s =
     (let c = Math_cos_double (js_div_double (theta s) (Number 2)) in js_mul_double c c)"

definition performMeasurement_double :: "real \<Rightarrow> real \<Rightarrow> visualizer \<Rightarrow> nat \<times> visualizer" where
  "performMeasurement_double sample now s =
     (let measurement = (if js_lt (Number sample) (prob0_double s) then 0 else 1 :: nat)
      in (measurement,
          if measurement = 0
          then animateToState (Number 0) (Number 0) default_duration now s
          else animateToState (Number Math_PI) (Number 0) default_duration now s))"

section \<open>Notions used by the theorems\<close>

text \<open>While animating exactly one closure waits for a frame, otherwise none.\<close>

definition one_in_flight :: "visualizer \<Rightarrow> bool" where
  "one_in_flight s = (if isAnimating s then length (frameRequests s) = 1 else frameRequests s = [])"

text \<open>The two tests of \<open>applyHadamard\<close> that pick a special case.\<close>

definition special_cased :: "jsnum \<Rightarrow> bool" where
  "special_cased th =
     (js_lt (Math_abs th) (Number (1 / 10 ^ 10)) \<or>
      js_lt (Math_abs (js_sub th (Number pi))) (Number (1 / 10 ^ 10)))"

text \<open>What \<open>if (newPhi < 0) newPhi += 2 * Math.PI\<close> does to a number.\<close>

definition wrap_angle :: "real \<Rightarrow> real" where
  "wrap_angle a = (if a < 0 then a + 2 * pi else a)"

text \<open>Inputs of the examples.\<close>

definition half_turn :: transition where
  "half_turn = \<lparr>startTheta = Number 0, startPhi = Number 0, startTime = 1000,
     targetTheta = Number 1, targetPhi = Number 2, duration = 1000\<rparr>"

definition right_state :: visualizer where
  "right_state = \<lparr>theta = Number (pi / 2), phi = Number (pi / 2), isAnimating = False,
     frameRequests = []\<rparr>"

definition excited_right :: visualizer where
  "excited_right = \<lparr>theta = Number pi, phi = Number (pi / 2), isAnimating = False,
     frameRequests = []\<rparr>"

text \<open>
  The ranges of the two angles in double precision, where \<open>pi\<close> is \<open>Math.PI\<close>: with
  \<open>phi\<close> below \<open>2 * Math.PI\<close>, and with \<open>phi\<close> up to \<open>2 * Math.PI\<close>.
\<close>

fun in_range_double :: "jsnum \<times> jsnum \<Rightarrow> bool" where
  "in_range_double (Number t, Number p) =
     (0 \<le> t \<and> t \<le> Math_PI \<and> 0 \<le> p \<and> p < 2 * Math_PI)"
| "in_range_double _ = False"

fun in_range_closed :: "jsnum \<times> jsnum \<Rightarrow> bool" where
  "in_range_closed (Number t, Number p) =
     (0 \<le> t \<and> t \<le> Math_PI \<and> 0 \<le> p \<and> p \<le> 2 * Math_PI)"
| "in_range_closed _ = False"

text \<open>Inputs of the examples in double precision.\<close>

definition one_degree :: jsnum where
  "one_degree = theta (thetaSliderInput_double (Number 1) initial)"

definition excited_double :: visualizer where
  "excited_double =
     \<lparr>theta = Number Math_PI, phi = Number 0, isAnimating = False, frameRequests = []\<rparr>"

text \<open>The partial sums of the series of \<open>arctan\<close>, for the digits of \<open>pi\<close>.\<close>

definition arctan_sum :: "real \<Rightarrow> nat \<Rightarrow> real" where
  "arctan_sum x n = (\<Sum>k<n. (- 1) ^ k * (1 / real (k * 2 + 1) * x ^ (k * 2 + 1)))"

text \<open>What \<open>if (newPhi < 0) newPhi += 2 * Math.PI\<close> does to a double.\<close>

definition wrap_angle_double :: "real \<Rightarrow> real" where
  "wrap_angle_double a = (if a < 0 then round_double (a + 2 * Math_PI) else a)"

section \<open>At most one transition in flight\<close>

lemma animateToState_one_in_flight:
  "one_in_flight s \<Longrightarrow> one_in_flight (animateToState tTheta tPhi dur now s)"
  by (simp add: one_in_flight_def animateToState_def)

lemma animate_one_in_flight:
  "isAnimating s \<Longrightarrow> frameRequests s = [] \<Longrightarrow> one_in_flight (animate c now s)"
  by (simp add: one_in_flight_def animate_def Let_def)

lemma animationFrame_one_in_flight:
  assumes "one_in_flight s"
  shows "one_in_flight (animationFrame now s)"
proof (cases "isAnimating s")
  case False
  with assms show ?thesis
    by (simp add: one_in_flight_def animationFrame_def)
next
  case True
  with assms obtain c where c: "frameRequests s = [c]"
    by (auto simp: one_in_flight_def length_Suc_conv)
  have "animationFrame now s = animate c now (s\<lparr>frameRequests := []\<rparr>)"
    by (simp add: animationFrame_def c)
  with True show ?thesis
    by (simp add: animate_one_in_flight)
qed

lemma step_one_in_flight:
  "one_in_flight s \<Longrightarrow> one_in_flight (step s e)"
proof (cases e)
  case (Pair now ev)
  assume inv: "one_in_flight s"
  show ?thesis
  proof (cases ev)
    case AnimationFrame
    with Pair inv show ?thesis by (simp add: animationFrame_one_in_flight)
  next
    case (GateClick gate)
    with Pair inv show ?thesis
      by (simp add: applyQuantumGate_def applyPauliX_def applyPauliY_def applyPauliZ_def
          applyHadamard_def animateToState_one_in_flight split: prod.splits)
  next
    case (PresetClick state)
    with Pair inv show ?thesis
      by (simp add: setPresetState_def animateToState_one_in_flight split: option.splits)
  next
    case (ThetaInput v)
    with Pair inv show ?thesis by (simp add: thetaSliderInput_def one_in_flight_def)
  next
    case (PhiInput v)
    with Pair inv show ?thesis by (simp add: phiSliderInput_def one_in_flight_def)
  next
    case (MeasureTimeout sample)
    with Pair inv show ?thesis
      by (simp add: performMeasurement_def Let_def animateToState_one_in_flight)
  next
    case ResetClick
    with Pair inv show ?thesis by (simp add: resetState_def animateToState_one_in_flight)
  qed
qed

lemma foldl_step_one_in_flight:
  "one_in_flight s \<Longrightarrow> one_in_flight (foldl step s evs)"
  by (induction evs arbitrary: s) (simp_all add: step_one_in_flight)

lemma run_one_in_flight: "one_in_flight (run evs)"
  unfolding run_def
  by (rule foldl_step_one_in_flight) (simp add: one_in_flight_def initial_def)

text \<open>
  C1. While a transition is in flight (\<open>isAnimating\<close> is true), \<open>animateToState\<close> returns
  the visualizer as it was: the angles, the waiting closure with its start point,
  target and start time, and the flag are unchanged, and no second closure is
  requested. So after any sequence of events at most one closure is waiting, and one
  is waiting exactly while \<open>isAnimating\<close> is true.
\<close>

theorem animateToState_rejected_while_animating:
  "(isAnimating s \<longrightarrow> animateToState tTheta tPhi dur now s = s) \<and>
   length (frameRequests (run evs)) \<le> 1 \<and>
   (isAnimating (run evs) \<longleftrightarrow> frameRequests (run evs) \<noteq> [])"
proof -
  have "one_in_flight (run evs)" by (rule run_one_in_flight)
  then show ?thesis
    by (auto simp: one_in_flight_def animateToState_def split: if_splits)
qed

theorem animateToState_rejected_while_animating_witness:
  "isAnimating (setPresetState ''excited'' 0 initial) \<and>
   animateToState (Number 0) (Number 0) default_duration 5
     (setPresetState ''excited'' 0 initial) = setPresetState ''excited'' 0 initial \<and>
   targetTheta (hd (frameRequests (run [(0, PresetClick ''excited''), (5, ResetClick)])))
     = Number pi"
  using animateToState_rejected_while_animating
    [of "setPresetState ''excited'' 0 initial" "Number 0" "Number 0" default_duration 5 "[]"]
  by (simp add: setPresetState_def states_def animateToState_def initial_def run_def
      resetState_def)

section \<open>The sliders\<close>

text \<open>
  C2 (as amended). A slider listener stores its value converted from degrees to
  radians, \<open>v * pi / 180\<close>, and changes nothing else: there is no clamp and no modulo,
  and no value is rejected. The stored \<open>theta\<close> lies in \<open>[0, pi]\<close> when the slider value
  lies in \<open>[0, 180]\<close>, and the stored \<open>phi\<close> lies in \<open>[0, 2 pi)\<close> when the slider value
  lies in \<open>[0, 360)\<close>.
\<close>

theorem sliderInput_stores_radians:
  "thetaSliderInput (Number v) s = s\<lparr>theta := Number (v * pi / 180)\<rparr> \<and>
   phiSliderInput (Number v) s = s\<lparr>phi := Number (v * pi / 180)\<rparr> \<and>
   (0 \<le> v \<and> v \<le> 180 \<longrightarrow> 0 \<le> v * pi / 180 \<and> v * pi / 180 \<le> pi) \<and>
   (0 \<le> v \<and> v < 360 \<longrightarrow> 0 \<le> v * pi / 180 \<and> v * pi / 180 < 2 * pi)"
proof -
  have "v \<le> 180 \<Longrightarrow> v * pi / 180 \<le> pi"
    using mult_right_mono [of v 180 pi] by simp
  moreover have "v < 360 \<Longrightarrow> v * pi / 180 < 2 * pi"
    using mult_strict_right_mono [of v 360 pi] by simp
  ultimately show ?thesis
    by (simp add: thetaSliderInput_def phiSliderInput_def)
qed

theorem sliderInput_stores_radians_witness:
  "theta (thetaSliderInput (Number 90) initial) = Number (pi / 2) \<and>
   phi (phiSliderInput (Number 90) initial) = Number (pi / 2) \<and>
   (0::real) \<le> 90 \<and> (90::real) \<le> 180 \<and> (90::real) < 360 \<and>
   0 \<le> 90 * pi / 180 \<and> 90 * pi / 180 \<le> pi \<and> 90 * pi / 180 < 2 * pi"
  using sliderInput_stores_radians [of 90 initial]
  by simp

text \<open>
  As the specification states it, the property fails: the slider value 270 is stored as \<open>theta = 3 pi / 2\<close>, above
  \<open>pi\<close>, and the slider value 360 is stored as \<open>phi = 2 pi\<close>, outside \<open>[0, 2 pi)\<close>.
\<close>

theorem sliderInput_not_clamped:
  "theta (thetaSliderInput (Number 270) initial) = Number (3 * pi / 2) \<and>
   \<not> 3 * pi / 2 \<le> pi \<and>
   phi (phiSliderInput (Number 360) initial) = Number (2 * pi) \<and>
   \<not> 2 * pi < 2 * pi"
  by (simp add: thetaSliderInput_def phiSliderInput_def)

section \<open>One step of the interpolation\<close>

lemma transition_completes:
  assumes "\<not> isAnimating s" "frameRequests s = []"
    and "theta s = Number t0" "phi s = Number p0"
    and "0 < dur" "now + dur \<le> now'"
  shows "animationFrame now' (animateToState (Number a) (Number b) dur now s) =
    s\<lparr>theta := Number a, phi := Number b\<rparr>"
proof -
  define c where "c = \<lparr>startTheta = theta s, startPhi = phi s, startTime = now,
    targetTheta = Number a, targetPhi = Number b, duration = dur\<rparr>"
  have "1 \<le> (now' - now) / dur"
    using assms(5,6) by (simp add: pos_le_divide_eq)
  then have p: "progress c now' = 1"
    by (simp add: progress_def c_def)
  have "animationFrame now' (animateToState (Number a) (Number b) dur now s) =
      animate c now' (s\<lparr>isAnimating := True, frameRequests := []\<rparr>)"
    using assms(1,2) by (simp add: animationFrame_def animateToState_def c_def)
  also have "\<dots> = s\<lparr>theta := Number a, phi := Number b\<rparr>"
  proof -
    have f: "startTheta c = Number t0" "startPhi c = Number p0"
      "targetTheta c = Number a" "targetPhi c = Number b"
      using assms(3,4) by (simp_all add: c_def)
    show ?thesis
      using assms(1,2) by (simp add: animate_def eased_def p Let_def f)
  qed
  finally show ?thesis .
qed

lemma progress_le_1: "progress c now \<le> 1"
  by (simp add: progress_def)

lemma progress_nonneg: "0 < duration c \<Longrightarrow> startTime c \<le> now \<Longrightarrow> 0 \<le> progress c now"
  by (simp add: progress_def)

lemma animate_angles:
  "theta (animate c now s) =
     js_add (startTheta c) (js_mul (js_sub (targetTheta c) (startTheta c)) (Number (eased c now)))"
  "phi (animate c now s) =
     js_add (startPhi c) (js_mul (js_sub (targetPhi c) (startPhi c)) (Number (eased c now)))"
  by (simp_all add: animate_def Let_def)

text \<open>
  C6 (as amended). At the time \<open>now\<close> the closure computes
  \<open>progress = min ((now - startTime) / duration) 1\<close>, with no lower bound: for a
  positive duration, \<open>progress\<close> lies in \<open>[0, 1]\<close> when \<open>now\<close> is not before \<open>startTime\<close>. It
  sets \<open>theta = startTheta + (targetTheta - startTheta) * eased\<close> with
  \<open>eased = 1 - (1 - progress) ^ 3\<close>, and \<open>phi\<close> likewise, linearly in the raw angles. When
  \<open>progress < 1\<close> it requests the next frame and stays animating; otherwise it requests
  nothing and clears \<open>isAnimating\<close>.
\<close>

theorem animate_interpolates:
  assumes "startTheta c = Number a" "targetTheta c = Number b"
    and "startPhi c = Number p" "targetPhi c = Number q"
  shows "progress c now = min ((now - startTime c) / duration c) 1 \<and>
    (0 < duration c \<and> startTime c \<le> now \<longrightarrow> 0 \<le> progress c now \<and> progress c now \<le> 1) \<and>
    theta (animate c now s) = Number (a + (b - a) * (1 - (1 - progress c now) ^ 3)) \<and>
    phi (animate c now s) = Number (p + (q - p) * (1 - (1 - progress c now) ^ 3)) \<and>
    (progress c now < 1 \<longrightarrow>
       isAnimating (animate c now s) = isAnimating s \<and>
       frameRequests (animate c now s) = frameRequests s @ [c]) \<and>
    (1 \<le> progress c now \<longrightarrow>
       \<not> isAnimating (animate c now s) \<and>
       frameRequests (animate c now s) = frameRequests s)"
proof -
  have "theta (animate c now s) = Number (a + (b - a) * (1 - (1 - progress c now) ^ 3))"
    and "phi (animate c now s) = Number (p + (q - p) * (1 - (1 - progress c now) ^ 3))"
    using assms by (simp_all add: animate_angles eased_def)
  moreover have "0 < duration c \<and> startTime c \<le> now \<longrightarrow> 0 \<le> progress c now \<and> progress c now \<le> 1"
    by (simp add: progress_le_1 progress_nonneg)
  moreover have "progress c now < 1 \<longrightarrow>
       isAnimating (animate c now s) = isAnimating s \<and>
       frameRequests (animate c now s) = frameRequests s @ [c]"
    by (simp add: animate_def Let_def)
  moreover have "1 \<le> progress c now \<longrightarrow>
       \<not> isAnimating (animate c now s) \<and>
       frameRequests (animate c now s) = frameRequests s"
    by (simp add: animate_def Let_def)
  ultimately show ?thesis
    by (simp add: progress_def)
qed

theorem animate_interpolates_witness:
  "progress half_turn 1500 = 1 / 2 \<and>
   theta (animate half_turn 1500 initial) = Number (7 / 8) \<and>
   phi (animate half_turn 1500 initial) = Number (7 / 4) \<and>
   frameRequests (animate half_turn 1500 initial) = [half_turn] \<and>
   progress half_turn 2500 = 1 \<and>
   theta (animate half_turn 2500 initial) = Number 1 \<and>
   \<not> isAnimating (animate half_turn 2500 initial)"
  using animate_interpolates [of half_turn 0 1 0 2 1500 initial]
    animate_interpolates [of half_turn 0 1 0 2 2500 initial]
  by (simp add: progress_def half_turn_def initial_def power3_eq_cube)

text \<open>
  As the specification states it, the property fails before the start time: with \<open>startTime = 1000\<close> and
  \<open>now = 0\<close> the progress is \<open>- 1\<close>, not clamped to 0, and \<open>theta\<close> is set to \<open>- 7\<close> though
  the transition runs from 0 to 1.
\<close>

theorem progress_not_clamped_below:
  "progress half_turn 0 = - 1 \<and>
   \<not> 0 \<le> progress half_turn 0 \<and>
   theta (animate half_turn 0 initial) = Number (- 7) \<and>
   phi (animate half_turn 0 initial) = Number (- 14)"
  by (simp add: progress_def eased_def animate_def Let_def half_turn_def power3_eq_cube)

section \<open>The remainder and the Pauli gates\<close>

lemma fmod_small: "0 \<le> a \<Longrightarrow> a < b \<Longrightarrow> fmod a b = a"
proof -
  assume a: "0 \<le> a" "a < b"
  then have "0 \<le> a / b" "a / b < 1" by simp_all
  then have "\<lfloor>a / b\<rfloor> = 0" by linarith
  with \<open>0 \<le> a / b\<close> show ?thesis by (simp add: fmod_def trunc_def)
qed

lemma fmod_once: "b \<le> a \<Longrightarrow> a < 2 * b \<Longrightarrow> 0 < b \<Longrightarrow> fmod a b = a - b"
proof -
  assume a: "b \<le> a" "a < 2 * b" "0 < b"
  then have "1 \<le> a / b" "a / b < 2" by (simp_all add: pos_le_divide_eq pos_divide_less_eq)
  then have "\<lfloor>a / b\<rfloor> = 1" by linarith
  with \<open>1 \<le> a / b\<close> show ?thesis by (simp add: fmod_def trunc_def)
qed

lemma fmod_small_neg: "- b < a \<Longrightarrow> a < 0 \<Longrightarrow> fmod a b = a"
proof -
  assume a: "- b < a" "a < 0"
  then have b: "0 < b" by simp
  with a have "- 1 < a / b" "a / b < 0" by (simp_all add: pos_less_divide_eq pos_divide_less_eq)
  then have "\<lceil>a / b\<rceil> = 0" by linarith
  with \<open>a / b < 0\<close> show ?thesis by (simp add: fmod_def trunc_def)
qed

lemma pauliX_phi:
  assumes "0 \<le> p" "p < 2 * pi"
  shows "fmod (p + pi) (2 * pi) = (if p < pi then p + pi else p - pi)"
proof (cases "p < pi")
  case True
  with assms show ?thesis using fmod_small [of "p + pi" "2 * pi"] by simp
next
  case False
  with assms show ?thesis using fmod_once [of "2 * pi" "p + pi"] by simp
qed


lemma pauliZ_angles_Number:
  assumes "0 \<le> p" "p < 2 * pi"
  shows "pauliZ_angles (Number t, Number p) = (Number t, Number (if p < pi then p + pi else p - pi))"
  using assms by (simp add: pauliZ_angles_def pauliX_phi)



section \<open>The Hadamard gate in exact arithmetic\<close>

text \<open>
  The lemmas of this section are about \<open>hadamard_angles\<close>, the angles of \<open>applyHadamard\<close>
  over the real numbers. There the map is its own inverse away from the two special
  cases (\<open>hadamard_round_trip\<close>), and a state whose image falls under a special case
  comes back as \<open>(pi / 2, 0)\<close> or \<open>(pi / 2, pi)\<close>, with \<open>theta\<close> within \<open>1e-10\<close> of the
  original one and \<open>phi\<close> within \<open>1e-10\<close> of it up to a whole turn
  (\<open>hadamard_twice_snaps\<close>). In double precision the neighbourhood that comes back
  as \<open>(pi / 2, 0)\<close> is wider: see the last section.
\<close>

lemma atan2_bounds: "- pi < atan2 y x \<and> atan2 y x \<le> pi"
proof -
  have a: "- (pi / 2) < arctan (y / x)" "arctan (y / x) < pi / 2"
    by (rule arctan_lbound, rule arctan_ubound)
  have b: "x < 0 \<Longrightarrow> 0 \<le> y \<Longrightarrow> arctan (y / x) \<le> 0"
    by (simp add: divide_nonneg_neg arctan_le_zero_iff)
  have c: "x < 0 \<Longrightarrow> y < 0 \<Longrightarrow> 0 < arctan (y / x)"
    by (simp add: divide_neg_neg zero_less_arctan_iff)
  show ?thesis
    using a b c pi_gt_zero by (auto simp: atan2_def)
qed

lemma sqrt_one_plus_quot:
  assumes "x \<noteq> 0"
  shows "sqrt (1 + (y / x)\<^sup>2) = sqrt (x\<^sup>2 + y\<^sup>2) / \<bar>x\<bar>"
proof -
  have "1 + (y / x)\<^sup>2 = (x\<^sup>2 + y\<^sup>2) / x\<^sup>2"
    using assms by (simp add: power_divide add_divide_distrib)
  then show ?thesis
    by (simp add: real_sqrt_divide)
qed

lemma cos_atan2:
  assumes "x \<noteq> 0 \<or> y \<noteq> 0"
  shows "cos (atan2 y x) = x / sqrt (x\<^sup>2 + y\<^sup>2)"
proof -
  consider "0 < x" | "x < 0" | "x = 0" "0 < y" | "x = 0" "y < 0"
    using assms by fastforce
  then show ?thesis
  proof cases
    case 1
    then show ?thesis
      by (simp add: atan2_def cos_arctan sqrt_one_plus_quot)
  next
    case 2
    then show ?thesis
      by (simp add: atan2_def cos_arctan sqrt_one_plus_quot)
  next
    case 3
    then show ?thesis by (simp add: atan2_def)
  next
    case 4
    then show ?thesis by (simp add: atan2_def)
  qed
qed

lemma sin_atan2:
  assumes "x \<noteq> 0 \<or> y \<noteq> 0"
  shows "sin (atan2 y x) = y / sqrt (x\<^sup>2 + y\<^sup>2)"
proof -
  consider "0 < x" | "x < 0" | "x = 0" "0 < y" | "x = 0" "y < 0"
    using assms by fastforce
  then show ?thesis
  proof cases
    case 1
    then show ?thesis
      by (simp add: atan2_def sin_arctan sqrt_one_plus_quot)
  next
    case 2
    then show ?thesis
      by (simp add: atan2_def sin_arctan sqrt_one_plus_quot)
  next
    case 3
    then show ?thesis by (simp add: atan2_def)
  next
    case 4
    then show ?thesis by (simp add: atan2_def)
  qed
qed

lemma wrap_angle_range: "- pi < a \<Longrightarrow> a \<le> pi \<Longrightarrow> 0 \<le> wrap_angle a \<and> wrap_angle a < 2 * pi"
  by (simp add: wrap_angle_def)

lemma cos_wrap_angle: "cos (wrap_angle a) = cos a"
  by (simp add: wrap_angle_def)

lemma sin_wrap_angle: "sin (wrap_angle a) = sin a"
  by (simp add: wrap_angle_def)

lemma angle_unique:
  assumes "0 \<le> a" "a < 2 * pi" "0 \<le> b" "b < 2 * pi" "cos a = cos b" "sin a = sin b"
  shows "a = b"
proof -
  from assms(5,6) obtain n :: int where n: "a = b + 2 * pi * of_int n"
    using sin_cos_eq_iff [of a b] by auto
  have "n = 0"
  proof (rule ccontr)
    assume "n \<noteq> 0"
    then consider "1 \<le> n" | "n \<le> - 1" by linarith
    then show False
    proof cases
      case 1
      then have "2 * pi * 1 \<le> 2 * pi * of_int n"
        by (intro mult_left_mono) simp_all
      with n assms(2,3) show False by simp
    next
      case 2
      then have "2 * pi * of_int n \<le> 2 * pi * (- 1)"
        by (intro mult_left_mono) simp_all
      with n assms(1,4) show False by simp
    qed
  qed
  with n show ?thesis by simp
qed

lemma polar_nonzero:
  assumes "0 < (r::real)"
  shows "r * cos p \<noteq> 0 \<or> r * sin p \<noteq> 0"
proof (rule ccontr)
  assume "\<not> ?thesis"
  with assms have "cos p = 0" "sin p = 0" by simp_all
  then have "(cos p)\<^sup>2 + (sin p)\<^sup>2 = 0" by simp
  then show False by (simp only: sin_cos_squared_add2)
qed

lemma polar_norm:
  assumes "0 < (r::real)"
  shows "sqrt ((r * cos p)\<^sup>2 + (r * sin p)\<^sup>2) = r"
proof -
  have "(r * cos p)\<^sup>2 + (r * sin p)\<^sup>2 = r\<^sup>2 * ((cos p)\<^sup>2 + (sin p)\<^sup>2)"
    by (simp only: power_mult_distrib distrib_left)
  also have "\<dots> = r\<^sup>2"
    by (simp only: sin_cos_squared_add2 mult_1_right)
  finally show ?thesis
    using assms by (simp only: real_sqrt_abs abs_of_pos)
qed

lemma atan2_polar:
  assumes "0 < r" "0 \<le> p" "p < 2 * pi"
  shows "wrap_angle (atan2 (r * sin p) (r * cos p)) = p"
proof -
  let ?a = "atan2 (r * sin p) (r * cos p)"
  note nz = polar_nonzero [OF assms(1), of p]
  note rt = polar_norm [OF assms(1), of p]
  have "cos ?a = r * cos p / r"
    by (simp only: cos_atan2 [OF nz] rt)
  also have "\<dots> = cos p"
    using assms(1) by simp
  finally have c: "cos (wrap_angle ?a) = cos p"
    by (simp only: cos_wrap_angle)
  have "sin ?a = r * sin p / r"
    by (simp only: sin_atan2 [OF nz] rt)
  also have "\<dots> = sin p"
    using assms(1) by simp
  finally have s: "sin (wrap_angle ?a) = sin p"
    by (simp only: sin_wrap_angle)
  have "0 \<le> wrap_angle ?a \<and> wrap_angle ?a < 2 * pi"
    using atan2_bounds [of "r * sin p" "r * cos p"] by (simp only: wrap_angle_range)
  then have "0 \<le> wrap_angle ?a" "wrap_angle ?a < 2 * pi"
    by blast+
  then show ?thesis
    using assms(2,3) c s by (rule angle_unique)
qed

lemma abs_sin_cos_le_1: "- 1 \<le> sin t * cos p \<and> sin t * cos p \<le> (1::real)"
proof -
  have "\<bar>sin t * cos p\<bar> \<le> 1 * 1"
    unfolding abs_mult by (intro mult_mono) simp_all
  then show ?thesis by (simp add: abs_le_iff)
qed

lemma special_cased_Number:
  "special_cased (Number t) \<longleftrightarrow> \<bar>t\<bar> < 1 / 10 ^ 10 \<or> \<bar>t - pi\<bar> < 1 / 10 ^ 10"
  by (simp only: special_cased_def Math_abs.simps js_sub.simps js_lt.simps)

lemma hadamard_angles_general:
  assumes "\<not> special_cased (Number t)"
  shows "hadamard_angles (Number t, Number p) =
    (Number (arccos (sin t * cos p)), Number (wrap_angle (atan2 (- (sin t * sin p)) (cos t))))"
proof -
  from assms [unfolded special_cased_Number]
  have a: "\<not> \<bar>t\<bar> < 1 / 10 ^ 10" "\<not> \<bar>t - pi\<bar> < 1 / 10 ^ 10"
    by blast+
  show ?thesis
    using a abs_sin_cos_le_1 [of t p]
    by (simp add: hadamard_angles_def Let_def wrap_angle_def del: power_numeral)
qed

lemma hadamard_angles_ground:
  assumes "\<bar>t\<bar> < 1 / 10 ^ 10"
  shows "hadamard_angles (Number t, Number p) = (Number (pi / 2), Number 0)"
  using assms by (simp add: hadamard_angles_def del: power_numeral)

lemma hadamard_angles_excited:
  assumes "\<not> \<bar>t\<bar> < 1 / 10 ^ 10" "\<bar>t - pi\<bar> < 1 / 10 ^ 10"
  shows "hadamard_angles (Number t, Number p) = (Number (pi / 2), Number pi)"
  using assms by (simp add: hadamard_angles_def del: power_numeral)

lemma not_special_cased_interior:
  assumes "0 \<le> t" "t \<le> pi" "\<not> special_cased (Number t)"
  shows "0 < t \<and> t < pi"
proof -
  have e: "(0::real) < 1 / 10 ^ 10" by simp
  from assms(3) [unfolded special_cased_Number]
  have "\<not> \<bar>t\<bar> < 1 / 10 ^ 10" "\<not> \<bar>t - pi\<bar> < 1 / 10 ^ 10"
    by blast+
  with assms(1,2) e show ?thesis
    by (simp only: abs_if split: if_splits) linarith+
qed

lemma bloch_unit:
  "(sin t * cos p)\<^sup>2 + (sin t * sin p)\<^sup>2 + (cos t)\<^sup>2 = (1::real)"
proof -
  have "(sin t * cos p)\<^sup>2 + (sin t * sin p)\<^sup>2 = (sin t)\<^sup>2 * ((cos p)\<^sup>2 + (sin p)\<^sup>2)"
    by (simp only: power_mult_distrib distrib_left)
  also have "\<dots> = (sin t)\<^sup>2"
    by (simp only: sin_cos_squared_add2 mult_1_right)
  finally show ?thesis
    by (simp only: sin_cos_squared_add)
qed

lemma hadamard_round_trip:
  assumes "0 \<le> t" "t \<le> pi" "0 \<le> p" "p < 2 * pi"
    and "\<not> special_cased (Number t)"
    and "\<not> special_cased (fst (hadamard_angles (Number t, Number p)))"
  shows "hadamard_angles (hadamard_angles (Number t, Number p)) = (Number t, Number p)"
proof -
  define x where "x = sin t * cos p"
  define y where "y = sin t * sin p"
  define z where "z = cos t"
  define t' where "t' = arccos x"
  define p' where "p' = wrap_angle (atan2 (- y) z)"
  have h1: "hadamard_angles (Number t, Number p) = (Number t', Number p')"
    unfolding t'_def p'_def x_def y_def z_def by (rule hadamard_angles_general [OF assms(5)])
  have xb: "- 1 \<le> x" "x \<le> 1"
    using abs_sin_cos_le_1 [of t p] unfolding x_def by blast+
  have ns: "\<not> special_cased (Number t')"
    using assms(6) unfolding h1 fst_conv .
  have "0 \<le> t'" "t' \<le> pi"
    unfolding t'_def using xb by (simp_all only: arccos_lbound arccos_ubound)
  then have t'i: "0 < t'" "t' < pi"
    using not_special_cased_interior [OF _ _ ns] by blast+
  then have st': "0 < sin t'"
    by (rule sin_gt_zero)
  have unit: "x\<^sup>2 + y\<^sup>2 + z\<^sup>2 = 1"
    unfolding x_def y_def z_def by (rule bloch_unit)
  then have "1 - x\<^sup>2 = z\<^sup>2 + (- y)\<^sup>2"
    by simp
  then have r: "sin t' = sqrt (z\<^sup>2 + (- y)\<^sup>2)"
    unfolding t'_def using sin_arccos [OF xb] by (simp only:)
  have nz: "z \<noteq> 0 \<or> - y \<noteq> 0"
  proof (rule ccontr)
    assume "\<not> ?thesis"
    then have "z = 0" "- y = 0" by blast+
    then have "sqrt (z\<^sup>2 + (- y)\<^sup>2) = 0" by simp
    with r st' show False by simp
  qed
  have "cos p' = z / sin t'"
    unfolding p'_def by (simp only: cos_wrap_angle cos_atan2 [OF nz] r)
  then have x2: "sin t' * cos p' = cos t"
    using st' unfolding z_def by simp
  have "sin p' = - y / sin t'"
    unfolding p'_def by (simp only: sin_wrap_angle sin_atan2 [OF nz] r)
  then have y2: "- (sin t' * sin p') = sin t * sin p"
    using st' unfolding y_def by simp
  have z2: "cos t' = sin t * cos p"
    unfolding t'_def x_def [symmetric] using xb by (rule cos_arccos)
  have ti: "0 < t" "t < pi"
    using not_special_cased_interior [OF assms(1,2,5)] by blast+
  then have st: "0 < sin t"
    by (rule sin_gt_zero)
  have "hadamard_angles (Number t', Number p') =
      (Number (arccos (sin t' * cos p')), Number (wrap_angle (atan2 (- (sin t' * sin p')) (cos t'))))"
    by (rule hadamard_angles_general [OF ns])
  also have "\<dots> = (Number (arccos (cos t)), Number (wrap_angle (atan2 (sin t * sin p) (sin t * cos p))))"
    by (simp only: x2 y2 z2)
  also have "\<dots> = (Number t, Number p)"
    by (simp only: arccos_cos [OF assms(1,2)] atan2_polar [OF st assms(3,4)])
  finally show ?thesis
    unfolding h1 .
qed

lemma pi_half_not_special: "\<not> special_cased (Number (pi / 2))"
proof -
  have "1 / 10 ^ 10 \<le> (1::real)" by simp
  also have "\<dots> \<le> pi / 2" using pi_ge_two by simp
  finally have a: "1 / 10 ^ 10 \<le> pi / 2" .
  have "\<bar>pi / 2\<bar> = pi / 2" "\<bar>pi / 2 - pi\<bar> = pi / 2"
    by simp_all
  with a show ?thesis
    unfolding special_cased_Number by (simp only: not_less de_Morgan_disj simp_thms)
qed

lemma hadamard_ground: "hadamard_angles (Number 0, Number 0) = (Number (pi / 2), Number 0)"
  by (rule hadamard_angles_ground) simp

lemma hadamard_plus: "hadamard_angles (Number (pi / 2), Number 0) = (Number 0, Number 0)"
  by (simp add: hadamard_angles_general [OF pi_half_not_special] atan2_def wrap_angle_def)

lemma hadamard_right:
  "hadamard_angles (Number (pi / 2), Number (pi / 2)) = (Number (pi / 2), Number (3 * pi / 2))"
  by (simp add: hadamard_angles_general [OF pi_half_not_special] atan2_def wrap_angle_def)

lemma cos_gt_imp_near_zero:
  assumes "0 \<le> e" "e \<le> pi" "0 \<le> a" "a \<le> pi" "cos e < cos a"
  shows "a < e"
proof (rule ccontr)
  assume "\<not> a < e"
  then have "e \<le> a" by simp
  then have "cos a \<le> cos e"
    using assms(1,4) by (intro cos_monotone_0_pi_le) simp_all
  with assms(5) show False by simp
qed

lemma near_plus:
  assumes "0 \<le> t" "t \<le> pi" "0 \<le> p" "p < 2 * pi"
    and e: "0 < e" "e < pi / 2"
    and im: "arccos (sin t * cos p) < e"
  shows "\<bar>t - pi / 2\<bar> < e \<and> (p < e \<or> 2 * pi - e < p)"
proof -
  define x where "x = sin t * cos p"
  have xb: "- 1 \<le> x" "x \<le> 1"
    using abs_sin_cos_le_1 [of t p] unfolding x_def by blast+
  have "cos e < cos (arccos x)"
    using im e arccos_lbound [OF xb] unfolding x_def
    by (intro cos_monotone_0_pi) simp_all
  then have cx: "cos e < x"
    using xb by (simp only: cos_arccos)
  have ce: "0 < cos e"
    using e by (intro cos_gt_zero) simp_all
  have st: "0 \<le> sin t" "sin t \<le> 1"
    using assms(1,2) by (simp_all add: sin_ge_zero)
  have "x \<le> sin t * 1"
    unfolding x_def using st(1) by (intro mult_left_mono) simp_all
  with cx have s: "cos e < sin t" by simp
  have cp0: "0 < cos p"
  proof (rule ccontr)
    assume "\<not> 0 < cos p"
    then have "sin t * cos p \<le> 0"
      using st(1) by (simp add: mult_nonneg_nonpos)
    with cx ce show False unfolding x_def by simp
  qed
  then have "x \<le> 1 * cos p"
    unfolding x_def using st(2) by (intro mult_right_mono) simp_all
  with cx have c: "cos e < cos p" by simp
  have "cos e < cos \<bar>t - pi / 2\<bar>"
    using s by (simp add: cos_diff)
  moreover have "\<bar>t - pi / 2\<bar> \<le> pi"
    using assms(1,2) by (simp add: abs_if)
  ultimately have t: "\<bar>t - pi / 2\<bar> < e"
    using e by (intro cos_gt_imp_near_zero [of e]) simp_all
  have "p < e \<or> 2 * pi - e < p"
  proof (cases "p \<le> pi")
    case True
    then have "p < e"
      using c e assms(3) by (intro cos_gt_imp_near_zero [of e]) simp_all
    then show ?thesis ..
  next
    case False
    have "cos e < cos (2 * pi - p)"
      using c by simp
    then have "2 * pi - p < e"
      using False e assms(4) by (intro cos_gt_imp_near_zero [of e]) simp_all
    then show ?thesis by simp
  qed
  with t show ?thesis ..
qed

lemma near_minus:
  assumes "0 \<le> t" "t \<le> pi" "0 \<le> p" "p < 2 * pi"
    and e: "0 < e" "e < pi / 2"
    and im: "pi - e < arccos (sin t * cos p)"
  shows "\<bar>t - pi / 2\<bar> < e \<and> \<bar>p - pi\<bar> < e"
proof -
  define q where "q = (if p < pi then p + pi else p - pi)"
  have q: "0 \<le> q" "q < 2 * pi" "cos q = - cos p"
    using assms(3,4) by (simp_all add: q_def)
  have xb: "- 1 \<le> sin t * cos p" "sin t * cos p \<le> 1"
    using abs_sin_cos_le_1 [of t p] by blast+
  have "arccos (sin t * cos q) = arccos (- (sin t * cos p))"
    by (simp only: q(3) mult_minus_right)
  also have "\<dots> = pi - arccos (sin t * cos p)"
    using xb by (rule arccos_minus)
  also have "\<dots> < e"
    using im by simp
  finally have "arccos (sin t * cos q) < e" .
  from near_plus [OF assms(1,2) q(1,2) e this]
  have t: "\<bar>t - pi / 2\<bar> < e" and c: "q < e \<or> 2 * pi - e < q"
    by blast+
  have "\<bar>p - pi\<bar> < e"
    using c e assms(3,4) by (auto simp: q_def abs_if split: if_splits)
  with t show ?thesis ..
qed

lemma hadamard_twice_snaps:
  assumes "0 \<le> t" "t \<le> pi" "0 \<le> p" "p < 2 * pi"
    and ns: "\<not> special_cased (Number t)"
    and sp: "special_cased (fst (hadamard_angles (Number t, Number p)))"
  shows "(hadamard_angles (hadamard_angles (Number t, Number p)) = (Number (pi / 2), Number 0) \<and>
      \<bar>t - pi / 2\<bar> < 1 / 10 ^ 10 \<and> (p < 1 / 10 ^ 10 \<or> 2 * pi - 1 / 10 ^ 10 < p)) \<or>
    (hadamard_angles (hadamard_angles (Number t, Number p)) = (Number (pi / 2), Number pi) \<and>
      \<bar>t - pi / 2\<bar> < 1 / 10 ^ 10 \<and> \<bar>p - pi\<bar> < 1 / 10 ^ 10)"
proof -
  define e :: real where "e = 1 / 10 ^ 10"
  have e: "0 < e" "e < pi / 2"
  proof -
    show "0 < e" by (simp add: e_def)
    have "e \<le> 1 / 2" by (simp add: e_def)
    also have "\<dots> < pi / 2" using pi_ge_two by simp
    finally show "e < pi / 2" .
  qed
  define t' where "t' = arccos (sin t * cos p)"
  define p' where "p' = wrap_angle (atan2 (- (sin t * sin p)) (cos t))"
  have h1: "hadamard_angles (Number t, Number p) = (Number t', Number p')"
    unfolding t'_def p'_def by (rule hadamard_angles_general [OF ns])
  have t'0: "0 \<le> t'"
    unfolding t'_def using abs_sin_cos_le_1 [of t p] by (intro arccos_lbound) blast+
  from sp have "\<bar>t'\<bar> < e \<or> (\<not> \<bar>t'\<bar> < e \<and> \<bar>t' - pi\<bar> < e)"
    unfolding h1 fst_conv special_cased_Number e_def by blast
  then show ?thesis
  proof
    assume a: "\<bar>t'\<bar> < e"
    then have "hadamard_angles (Number t', Number p') = (Number (pi / 2), Number 0)"
      unfolding e_def by (rule hadamard_angles_ground)
    moreover have "arccos (sin t * cos p) < e"
      using a t'0 unfolding t'_def by simp
    note near_plus [OF assms(1-4) e this]
    ultimately show ?thesis
      unfolding h1 e_def by blast
  next
    assume a: "\<not> \<bar>t'\<bar> < e \<and> \<bar>t' - pi\<bar> < e"
    then have "hadamard_angles (Number t', Number p') = (Number (pi / 2), Number pi)"
      unfolding e_def by (intro hadamard_angles_excited) blast+
    moreover have "pi - e < arccos (sin t * cos p)"
      using a unfolding t'_def by (simp add: abs_if split: if_splits)
    note near_minus [OF assms(1-4) e this]
    ultimately show ?thesis
      unfolding h1 e_def by blast
  qed
qed

lemma hadamard_near_plus:
  "hadamard_angles (Number (pi / 2), Number (2 * pi - 1 / 10 ^ 11)) =
     (Number (1 / 10 ^ 11), Number (pi / 2))"
proof -
  have e: "(0::real) < 1 / 10 ^ 11" "(1::real) / 10 ^ 11 \<le> pi"
    using pi_ge_two by simp_all
  then have s: "0 < sin ((1::real) / 10 ^ 11)"
    using pi_ge_two by (intro sin_gt_zero) simp_all
  have a: "arccos (cos ((1::real) / 10 ^ 11)) = 1 / 10 ^ 11"
    using e by (intro arccos_cos) simp_all
  have "hadamard_angles (Number (pi / 2), Number (2 * pi - 1 / 10 ^ 11)) =
      (Number (arccos (cos (1 / 10 ^ 11))), Number (wrap_angle (atan2 (sin (1 / 10 ^ 11)) 0)))"
    by (simp add: hadamard_angles_general [OF pi_half_not_special] del: power_numeral)
  also have "\<dots> = (Number (1 / 10 ^ 11), Number (pi / 2))"
    using s by (simp only: a) (simp add: atan2_def wrap_angle_def del: power_numeral)
  finally show ?thesis .
qed

section \<open>The state display\<close>

lemma decimal_0: "decimal 0 = ''0''"
  by (simp add: decimal.simps digit_char_def)

lemma decimal_1000: "decimal 1000 = ''1000''"
  by (simp add: decimal.simps digit_char_def)

lemma decimal_707: "decimal 707 = ''707''"
  by (simp add: decimal.simps digit_char_def)

lemma toFixed3_0: "toFixed3 (Number 0) = ''0.000''"
  by (simp add: decimal_0 eval_nat_numeral)

lemma toFixed3_1: "toFixed3 (Number 1) = ''1.000''"
  by (simp add: decimal_1000)

lemma sqrt2_bounds: "1413 / 1000 < sqrt 2" "sqrt 2 < 1415 / 1000"
  by (rule real_less_rsqrt, simp add: power2_eq_square)
     (rule real_less_lsqrt, simp_all add: power2_eq_square)

lemma floor_sqrt2: "\<lfloor>sqrt 2 / 2 * 1000 + 1 / 2\<rfloor> = 707"
  using sqrt2_bounds by (intro floor_unique) simp_all

lemma toFixed3_sqrt2_half: "toFixed3 (Number (sqrt 2 / 2)) = ''0.707''"
proof -
  have "\<bar>sqrt 2 / 2\<bar> = sqrt 2 / 2" by simp
  then have "nat \<lfloor>\<bar>sqrt 2 / 2\<bar> * 1000 + 1 / 2\<rfloor> = 707"
    by (simp only: floor_sqrt2)
  moreover have "\<not> sqrt 2 / 2 < 0" by simp
  ultimately show ?thesis
    by (simp only: toFixed3.simps Let_def decimal_707 if_False) (simp add: eval_nat_numeral)
qed

lemma alpha_Number:
  "theta s = Number t \<Longrightarrow> alpha s = \<lparr>real_js = Number (cos (t / 2)), imag_js = Number 0\<rparr>"
  by (simp add: alpha_def)

lemma beta_Number:
  "theta s = Number t \<Longrightarrow> phi s = Number p \<Longrightarrow>
   beta s = \<lparr>real_js = Number (cos p * sin (t / 2)), imag_js = Number (sin p * sin (t / 2))\<rparr>"
  by (simp add: beta_def Complex_exp_def Complex_scale_def Let_def)

lemma formatComplex_real:
  "\<bar>im\<bar> < 1 / 10 ^ 10 \<Longrightarrow> formatComplex (Number re) (Number im) = toFixed3 (Number re)"
  by (simp add: formatComplex_def del: power_numeral)

lemma formatComplex_imag:
  "\<not> \<bar>im\<bar> < 1 / 10 ^ 10 \<Longrightarrow> \<bar>re\<bar> < 1 / 10 ^ 10 \<Longrightarrow>
   formatComplex (Number re) (Number im) =
     (if \<bar>im - 1\<bar> < 1 / 10 ^ 10 then ''i''
      else if \<bar>im + 1\<bar> < 1 / 10 ^ 10 then ''-i''
      else toFixed3 (Number im) @ ''i'')"
  by (simp add: formatComplex_def Let_def del: power_numeral)

lemma display_initial:
  "updateStateDisplay initial =
     ''|'' @ psi @ rangle @ '' = 1.000|0'' @ rangle @ '' + (0.000)|1'' @ rangle"
proof -
  have "alpha initial = \<lparr>real_js = Number 1, imag_js = Number 0\<rparr>"
    using alpha_Number [of initial 0] by (simp add: initial_def)
  moreover have "beta initial = \<lparr>real_js = Number 0, imag_js = Number 0\<rparr>"
    using beta_Number [of initial 0 0] by (simp add: initial_def)
  ultimately show ?thesis
    by (simp add: updateStateDisplay_def Let_def formatComplex_real toFixed3_0 toFixed3_1
        del: toFixed3.simps)
qed

lemma beta_right_state: "beta right_state = \<lparr>real_js = Number 0, imag_js = Number (sqrt 2 / 2)\<rparr>"
  using beta_Number [of right_state "pi / 2" "pi / 2"]
  by (simp add: right_state_def sin_45)

lemma beta_excited_right: "beta excited_right = \<lparr>real_js = Number 0, imag_js = Number 1\<rparr>"
  using beta_Number [of excited_right pi "pi / 2"]
  by (simp add: excited_right_def)

lemma format_beta_right_state:
  "formatComplex (real_js (beta right_state)) (imag_js (beta right_state)) = ''0.707i''"
proof -
  have e: "(1::real) / 10 ^ 10 \<le> 1 / 10" by simp
  have "sqrt 2 / 2 < 1 - 1 / 10" "1 / 10 < sqrt 2 / 2"
    using sqrt2_bounds by simp_all
  with e have a: "\<not> \<bar>sqrt 2 / 2\<bar> < 1 / 10 ^ 10"
    and b: "\<not> \<bar>sqrt 2 / 2 - 1\<bar> < 1 / 10 ^ 10" "\<not> \<bar>sqrt 2 / 2 + 1\<bar> < 1 / 10 ^ 10"
    by (simp_all only: abs_if split: if_splits) linarith+
  have z: "\<bar>0::real\<bar> < 1 / 10 ^ 10" by simp
  have "formatComplex (Number 0) (Number (sqrt 2 / 2)) =
      toFixed3 (Number (sqrt 2 / 2)) @ ''i''"
    using b by (simp only: formatComplex_imag [OF a z] if_False)
  then show ?thesis
    by (simp only: beta_right_state toFixed3_sqrt2_half Complex_js.simps) simp
qed

lemma format_beta_excited_right:
  "formatComplex (real_js (beta excited_right)) (imag_js (beta excited_right)) = ''i''"
proof -
  have a: "\<not> \<bar>1::real\<bar> < 1 / 10 ^ 10" and z: "\<bar>0::real\<bar> < 1 / 10 ^ 10"
    and b: "\<bar>(1::real) - 1\<bar> < 1 / 10 ^ 10"
    by simp_all
  have "formatComplex (Number 0) (Number 1) = ''i''"
    using b by (simp only: formatComplex_imag [OF a z] if_True)
  then show ?thesis
    by (simp only: beta_excited_right Complex_js.simps)
qed

lemma toFixed3_nonempty: "toFixed3 (Number x) \<noteq> []"
  by (simp add: Let_def)

lemma decimal_500: "decimal 500 = ''500''"
  by (simp add: decimal.simps digit_char_def)

lemma toFixed3_half: "toFixed3 (Number (1 / 2)) = ''0.500''"
proof -
  have "nat \<lfloor>\<bar>1 / 2 :: real\<bar> * 1000 + 1 / 2\<rfloor> = 500"
    by simp
  moreover have "\<not> (1 / 2 :: real) < 0" by simp
  ultimately show ?thesis
    by (simp only: toFixed3.simps Let_def decimal_500 if_False) (simp add: eval_nat_numeral)
qed

lemma formatComplex_both:
  "\<not> \<bar>im\<bar> < 1 / 10 ^ 10 \<Longrightarrow> \<not> \<bar>re\<bar> < 1 / 10 ^ 10 \<Longrightarrow>
   formatComplex (Number re) (Number im) =
     (if 0 < im
      then toFixed3 (Number re) @ '' + '' @
        (if \<bar>im - 1\<bar> < 1 / 10 ^ 10 then ''i'' else toFixed3 (Number im) @ ''i'')
      else toFixed3 (Number re) @ '' - '' @
        (if \<bar>im + 1\<bar> < 1 / 10 ^ 10 then ''i'' else drop 1 (toFixed3 (Number im)) @ ''i''))"
proof -
  assume a: "\<not> \<bar>im\<bar> < 1 / 10 ^ 10" "\<not> \<bar>re\<bar> < 1 / 10 ^ 10"
  have e: "(0::real) < 1 / 10 ^ 10" "(1::real) / 10 ^ 10 < 1" by simp_all
  have n: "toFixed3 (Number re) \<noteq> []" "Suc 0 - length (toFixed3 (Number im)) = 0"
    using toFixed3_nonempty [of re] toFixed3_nonempty [of im]
    by (simp_all only: length_greater_0_conv [symmetric])
  show ?thesis
  proof (cases "0 < im")
    case True
    with e have "\<not> \<bar>im + 1\<bar> < 1 / 10 ^ 10"
      by (simp only: abs_if split: if_splits) linarith
    with a n True show ?thesis
      by (simp add: formatComplex_def Let_def del: power_numeral toFixed3.simps)
  next
    case False
    with e have "\<not> \<bar>im - 1\<bar> < 1 / 10 ^ 10"
      by (simp only: abs_if split: if_splits) linarith
    with a n False show ?thesis
      by (simp add: formatComplex_def Let_def del: power_numeral toFixed3.simps)
  qed
qed

lemma format_half_minus_i: "formatComplex (Number (1 / 2)) (Number (- 1)) = ''0.500 - i''"
proof -
  have "\<not> \<bar>- 1 :: real\<bar> < 1 / 10 ^ 10" "\<not> \<bar>1 / 2 :: real\<bar> < 1 / 10 ^ 10"
    by simp_all
  from formatComplex_both [OF this] show ?thesis
    by (simp add: toFixed3_half del: toFixed3.simps)
qed

text \<open>
  C8 (as amended). \<open>updateStateDisplay\<close> writes \<open>alpha|0> + (beta)|1>\<close> after the name
  of the state, each coefficient formatted by \<open>formatComplex\<close>. An imaginary part below
  \<open>1e-10\<close> in absolute value is left out: the real part is written alone, with three
  decimals. Otherwise the imaginary part is written as a bare \<open>i\<close> when it is within
  \<open>1e-10\<close> of 1 or of -1 and with three decimals before the \<open>i\<close> when it is not, and
  the real part, when it is below \<open>1e-10\<close> in absolute value, is left out: alone, the
  imaginary part reads \<open>i\<close>, \<open>-i\<close> or its decimals and \<open>i\<close>; after a real part it follows
  \<open>+\<close> when it is positive and \<open>-\<close>, without its own sign, when it is not (\<open>0.500 - i\<close>).
  At \<open>(theta, phi) = (0, 0)\<close> the coefficients read \<open>1.000\<close> and \<open>0.000\<close>; at
  \<open>(pi / 2, pi / 2)\<close> the coefficient \<open>beta\<close> reads \<open>0.707i\<close>, and it reads \<open>i\<close> at
  \<open>(pi, pi / 2)\<close>.
\<close>

theorem formatComplex_display:
  "(\<bar>im\<bar> < 1 / 10 ^ 10 \<longrightarrow> formatComplex (Number re) (Number im) = toFixed3 (Number re)) \<and>
   (\<not> \<bar>im\<bar> < 1 / 10 ^ 10 \<and> \<bar>re\<bar> < 1 / 10 ^ 10 \<longrightarrow>
      formatComplex (Number re) (Number im) =
        (if \<bar>im - 1\<bar> < 1 / 10 ^ 10 then ''i''
         else if \<bar>im + 1\<bar> < 1 / 10 ^ 10 then ''-i''
         else toFixed3 (Number im) @ ''i'')) \<and>
   (\<not> \<bar>im\<bar> < 1 / 10 ^ 10 \<and> \<not> \<bar>re\<bar> < 1 / 10 ^ 10 \<longrightarrow>
      formatComplex (Number re) (Number im) =
        (if 0 < im
         then toFixed3 (Number re) @ '' + '' @
           (if \<bar>im - 1\<bar> < 1 / 10 ^ 10 then ''i'' else toFixed3 (Number im) @ ''i'')
         else toFixed3 (Number re) @ '' - '' @
           (if \<bar>im + 1\<bar> < 1 / 10 ^ 10 then ''i''
            else drop 1 (toFixed3 (Number im)) @ ''i''))) \<and>
   updateStateDisplay s =
     ''|'' @ psi @ rangle @ '' = '' @ formatComplex (real_js (alpha s)) (imag_js (alpha s)) @
     ''|0'' @ rangle @ '' + ('' @ formatComplex (real_js (beta s)) (imag_js (beta s)) @
     '')|1'' @ rangle \<and>
   updateStateDisplay initial =
     ''|'' @ psi @ rangle @ '' = 1.000|0'' @ rangle @ '' + (0.000)|1'' @ rangle \<and>
   formatComplex (real_js (beta right_state)) (imag_js (beta right_state)) = ''0.707i'' \<and>
   formatComplex (real_js (beta excited_right)) (imag_js (beta excited_right)) = ''i''"
proof -
  have "updateStateDisplay s =
     ''|'' @ psi @ rangle @ '' = '' @ formatComplex (real_js (alpha s)) (imag_js (alpha s)) @
     ''|0'' @ rangle @ '' + ('' @ formatComplex (real_js (beta s)) (imag_js (beta s)) @
     '')|1'' @ rangle"
    by (simp add: updateStateDisplay_def Let_def)
  then show ?thesis
    using formatComplex_real [of im re] formatComplex_imag [of im re]
      formatComplex_both [of im re]
      display_initial format_beta_right_state format_beta_excited_right
    by blast
qed

theorem formatComplex_display_witness:
  "formatComplex (Number 1) (Number 0) = ''1.000'' \<and>
   formatComplex (Number 0) (Number (- 1)) = ''-i'' \<and>
   formatComplex (Number (1 / 2)) (Number (- 1)) = ''0.500 - i'' \<and>
   formatComplex (Number (1 / 2)) (Number 1) = ''0.500 + i''"
proof -
  have a: "formatComplex (Number 1) (Number 0) = ''1.000''"
    using formatComplex_display [of 0 1 initial]
    by (simp add: toFixed3_1 del: toFixed3.simps)
  have b: "formatComplex (Number 0) (Number (- 1)) = ''-i''"
    using formatComplex_display [of "- 1" 0 initial]
    by (simp del: toFixed3.simps)
  have c: "formatComplex (Number (1 / 2)) (Number (- 1)) = ''0.500 - i''"
    using formatComplex_display [of "- 1" "1 / 2" initial]
    by (simp add: toFixed3_half del: toFixed3.simps)
  have d: "formatComplex (Number (1 / 2)) (Number 1) = ''0.500 + i''"
    using formatComplex_display [of 1 "1 / 2" initial]
    by (simp add: toFixed3_half del: toFixed3.simps)
  from a b c d show ?thesis by blast
qed

text \<open>
  As the specification states it, the property fails at \<open>(theta, phi) = (pi / 2, pi / 2)\<close>: there \<open>beta\<close> is
  \<open>i * sin (pi / 4)\<close>, of absolute value \<open>sqrt 2 / 2\<close> and not 1, and it is written
  \<open>0.707i\<close>, not \<open>i\<close>.
\<close>

theorem beta_right_state_not_bare_i:
  "beta right_state = \<lparr>real_js = Number 0, imag_js = Number (sqrt 2 / 2)\<rparr> \<and>
   formatComplex (real_js (beta right_state)) (imag_js (beta right_state)) = ''0.707i'' \<and>
   formatComplex (real_js (beta right_state)) (imag_js (beta right_state)) \<noteq> ''i''"
  by (simp add: beta_right_state format_beta_right_state [simplified beta_right_state, simplified])

section \<open>Unknown identifiers\<close>

lemma setPresetState_unknown:
  "map_of states state = None \<Longrightarrow> state \<notin> set Object_prototype \<Longrightarrow>
   setPresetState state now s = s"
  by (simp add: setPresetState_def)

lemma applyQuantumGate_unknown:
  "gate \<notin> {''x'', ''y'', ''z'', ''h''} \<Longrightarrow>
   applyQuantumGate gate now s = Inr s \<or> applyQuantumGate gate now s = Inl TypeError"
  by (simp add: applyQuantumGate_def)

lemma step_GateClick_unknown:
  "gate \<notin> {''x'', ''y'', ''z'', ''h''} \<Longrightarrow> step s (now, GateClick gate) = s"
  using applyQuantumGate_unknown [of gate now s] by auto

text \<open>
  C7. The specification takes every identifier other than the six preset names to leave
  the visualizer as it was. The code does so for the identifiers that \<open>states\<close> neither has
  nor inherits; for an inherited key such as \<open>constructor\<close> the test \<open>if (states[state])\<close>
  succeeds, and on an idle visualizer \<open>setPresetState\<close> starts a transition whose targets
  are not numbers: after it both angles are \<open>NaN\<close>.
\<close>

theorem setPresetState_inherited_key:
  "map_of states ''constructor'' = None \<and>
   setPresetState ''constructor'' 0 initial =
     initial\<lparr>isAnimating := True,
       frameRequests := [\<lparr>startTheta = Number 0, startPhi = Number 0, startTime = 0,
         targetTheta = NaN, targetPhi = NaN, duration = 1000\<rparr>]\<rparr> \<and>
   setPresetState ''constructor'' 0 initial \<noteq> initial \<and>
   theta (animationFrame 1000 (setPresetState ''constructor'' 0 initial)) = NaN \<and>
   phi (animationFrame 1000 (setPresetState ''constructor'' 0 initial)) = NaN"
  by (simp add: setPresetState_def states_def Object_prototype_def animateToState_def
      initial_def default_duration_def animationFrame_def animate_def Let_def)

section \<open>Rounding to the nearest double\<close>

text \<open>
  \<open>round_double\<close> is odd and monotone, it is off by at most half a unit in the last
  place, and it leaves a number with a significand of 53 bits as it is.
\<close>

lemma round_even_bounds: "\<lfloor>x\<rfloor> \<le> round_even x" "round_even x \<le> \<lfloor>x\<rfloor> + 1"
  by (simp_all add: round_even_def Let_def)

lemma round_even_error: "\<bar>of_int (round_even x) - x\<bar> \<le> 1 / 2"
proof -
  have "of_int \<lfloor>x\<rfloor> \<le> x" "x < of_int \<lfloor>x\<rfloor> + 1"
    by linarith+
  then show ?thesis
    unfolding round_even_def Let_def by (simp add: abs_if) linarith
qed

lemma round_even_of_int [simp]: "round_even (of_int n) = n"
  by (simp add: round_even_def)

lemma round_even_ge:
  assumes "of_int n \<le> x"
  shows "n \<le> round_even x"
proof -
  from assms have "n \<le> \<lfloor>x\<rfloor>" by (simp add: le_floor_iff)
  with round_even_bounds(1) [of x] show ?thesis by simp
qed

lemma round_even_le:
  assumes "x \<le> of_int n"
  shows "round_even x \<le> n"
proof (cases "x = of_int n")
  case True
  then show ?thesis by simp
next
  case False
  with assms have "x < of_int n" by simp
  then have "\<lfloor>x\<rfloor> < n" by (simp add: floor_less_iff)
  with round_even_bounds(2) [of x] show ?thesis by simp
qed

lemma round_even_mono:
  assumes "x \<le> y"
  shows "round_even x \<le> round_even y"
proof (cases "\<lfloor>x\<rfloor> = \<lfloor>y\<rfloor>")
  case True
  with assms show ?thesis
    by (auto simp: round_even_def Let_def)
next
  case False
  with assms have "\<lfloor>x\<rfloor> < \<lfloor>y\<rfloor>"
    using floor_mono [of x y] by simp
  with round_even_bounds(2) [of x] round_even_bounds(1) [of y] show ?thesis
    by simp
qed

lemma round_even_minus: "round_even (- x) = - round_even x"
proof (cases "x = of_int \<lfloor>x\<rfloor>")
  case True
  then obtain n where "x = of_int n" ..
  then have "- x = of_int (- n)" by simp
  with \<open>x = of_int n\<close> show ?thesis
    by (simp only: round_even_of_int)
next
  case False
  have "of_int \<lfloor>x\<rfloor> \<le> x" "x < of_int \<lfloor>x\<rfloor> + 1" by linarith+
  with False have lt: "of_int \<lfloor>x\<rfloor> < x" "x < of_int \<lfloor>x\<rfloor> + 1"
    by linarith+
  have "real_of_int (- \<lfloor>x\<rfloor> - 1) \<le> - x" "- x < real_of_int (- \<lfloor>x\<rfloor> - 1) + 1"
    using lt by linarith+
  then have f: "\<lfloor>- x\<rfloor> = - \<lfloor>x\<rfloor> - 1"
    by (rule floor_unique)
  from lt show ?thesis
    unfolding round_even_def Let_def f by (auto simp: algebra_simps)
qed

lemma pow2_pos [simp]: "0 < pow2 k"
  by (simp add: pow2_def)

lemma pow2_add: "pow2 (a + b) = pow2 a * pow2 b"
  by (simp add: pow2_def powr_add)

lemma pow2_diff: "pow2 (a - b) = pow2 a / pow2 b"
  by (simp add: pow2_def powr_diff)

lemma pow2_mono: "a \<le> b \<Longrightarrow> pow2 a \<le> pow2 b"
  by (simp add: pow2_def)

lemma pow2_strict_mono: "a < b \<Longrightarrow> pow2 a < pow2 b"
  by (simp add: pow2_def)

lemma pow2_nat: "pow2 (int n) = 2 ^ n"
  by (simp add: pow2_def powr_realpow)

lemma pow2_neg_nat: "pow2 (- int n) = 1 / 2 ^ n"
  by (simp add: pow2_def powr_minus powr_realpow inverse_eq_divide)

lemma pow2_0 [simp]: "pow2 0 = 1"
  by (simp add: pow2_def)

lemma pow2_nonneg [simp]: "0 \<le> pow2 k"
  by (simp add: pow2_def)

lemma pow2_neq_0 [simp]: "pow2 k \<noteq> 0"
  by (simp add: pow2_def)

lemma pow2_Suc: "pow2 (k + 1) = 2 * pow2 k"
  by (simp add: pow2_def powr_add)

lemma log2_bounds:
  assumes "0 < x"
  shows "pow2 \<lfloor>log 2 x\<rfloor> \<le> x" "x < pow2 (\<lfloor>log 2 x\<rfloor> + 1)"
  using floor_log_eq_powr_iff [of x 2 "\<lfloor>log 2 x\<rfloor>"] assms
  by (simp_all add: pow2_def)

lemma floor_log2_eq:
  assumes "0 < x" "pow2 k \<le> x" "x < pow2 (k + 1)"
  shows "\<lfloor>log 2 x\<rfloor> = k"
  using floor_log_eq_powr_iff [of x 2 k] assms
  by (simp add: pow2_def)

lemma floor_log2_le:
  assumes "0 < x" "x < pow2 (k + 1)"
  shows "\<lfloor>log 2 x\<rfloor> \<le> k"
proof (rule ccontr)
  assume "\<not> ?thesis"
  then have "k + 1 \<le> \<lfloor>log 2 x\<rfloor>" by simp
  then have "pow2 (k + 1) \<le> pow2 \<lfloor>log 2 x\<rfloor>" by (rule pow2_mono)
  with log2_bounds(1) [OF assms(1)] assms(2) show False by simp
qed

text \<open>The scaled significand of a positive number.\<close>

lemma scaled_bounds:
  assumes "0 < x"
  shows "pow2 52 \<le> x / pow2 (\<lfloor>log 2 x\<rfloor> - 52)" "x / pow2 (\<lfloor>log 2 x\<rfloor> - 52) < pow2 53"
proof -
  let ?k = "\<lfloor>log 2 x\<rfloor>"
  have "?k = 52 + (?k - 52)" "?k + 1 = 53 + (?k - 52)"
    by simp_all
  then have a: "pow2 ?k = pow2 52 * pow2 (?k - 52)"
    and b: "pow2 (?k + 1) = pow2 53 * pow2 (?k - 52)"
    by (metis pow2_add)+
  show "pow2 52 \<le> x / pow2 (?k - 52)"
    using log2_bounds(1) [OF assms] unfolding a by (simp add: pos_le_divide_eq)
  show "x / pow2 (?k - 52) < pow2 53"
    using log2_bounds(2) [OF assms] unfolding b by (simp add: pos_divide_less_eq)
qed

lemma round_double_0 [simp]: "round_double 0 = 0"
  by (simp add: round_double_def)

lemma round_double_minus: "round_double (- x) = - round_double x"
  by (simp add: round_double_def Let_def round_even_minus)

lemma round_double_pos:
  assumes "0 < x"
  shows "round_double x = of_int (round_even (x / pow2 (\<lfloor>log 2 x\<rfloor> - 52))) * pow2 (\<lfloor>log 2 x\<rfloor> - 52)"
  using assms by (simp add: round_double_def Let_def)

lemma pow2_52: "pow2 52 = of_int (2 ^ 52)" and pow2_53: "pow2 53 = of_int (2 ^ 53)"
  using pow2_nat [of 52] pow2_nat [of 53] by simp_all

lemma round_double_pos_bounds:
  assumes "0 < x"
  shows "pow2 \<lfloor>log 2 x\<rfloor> \<le> round_double x" "round_double x \<le> pow2 (\<lfloor>log 2 x\<rfloor> + 1)"
proof -
  let ?k = "\<lfloor>log 2 x\<rfloor>"
  let ?s = "x / pow2 (?k - 52)"
  have "2 ^ 52 \<le> round_even ?s"
    using scaled_bounds(1) [OF assms] unfolding pow2_52 by (rule round_even_ge)
  then have "pow2 52 \<le> of_int (round_even ?s)"
    unfolding pow2_52 by (simp only: of_int_le_iff)
  then have "pow2 52 * pow2 (?k - 52) \<le> of_int (round_even ?s) * pow2 (?k - 52)"
    by (intro mult_right_mono) simp_all
  moreover have "pow2 52 * pow2 (?k - 52) = pow2 ?k"
    by (simp flip: pow2_add)
  ultimately show "pow2 ?k \<le> round_double x"
    unfolding round_double_pos [OF assms] by simp
  have "?s \<le> of_int (2 ^ 53)"
    using scaled_bounds(2) [OF assms] unfolding pow2_53 by simp
  then have "round_even ?s \<le> 2 ^ 53"
    by (rule round_even_le)
  then have "of_int (round_even ?s) \<le> pow2 53"
    unfolding pow2_53 by (simp only: of_int_le_iff)
  then have "of_int (round_even ?s) * pow2 (?k - 52) \<le> pow2 53 * pow2 (?k - 52)"
    by (intro mult_right_mono) simp_all
  moreover have "pow2 53 * pow2 (?k - 52) = pow2 (?k + 1)"
  proof -
    have "53 + (?k - 52) = ?k + 1" by simp
    then show ?thesis by (metis pow2_add)
  qed
  ultimately show "round_double x \<le> pow2 (?k + 1)"
    unfolding round_double_pos [OF assms] by simp
qed

lemma round_double_error_pos:
  assumes "0 < x"
  shows "\<bar>round_double x - x\<bar> \<le> pow2 (\<lfloor>log 2 x\<rfloor> - 53)"
proof -
  let ?e = "\<lfloor>log 2 x\<rfloor> - 52"
  let ?s = "x / pow2 ?e"
  have "round_double x - x = (of_int (round_even ?s) - ?s) * pow2 ?e"
    unfolding round_double_pos [OF assms] by (simp add: algebra_simps)
  then have "\<bar>round_double x - x\<bar> = \<bar>of_int (round_even ?s) - ?s\<bar> * pow2 ?e"
    by (simp add: abs_mult)
  also have "\<dots> \<le> 1 / 2 * pow2 ?e"
    using round_even_error [of ?s] by (intro mult_right_mono) simp_all
  also have "\<dots> = pow2 (\<lfloor>log 2 x\<rfloor> - 53)"
  proof -
    have "pow2 ?e = pow2 (\<lfloor>log 2 x\<rfloor> - 53 + 1)" by simp
    then show ?thesis unfolding pow2_Suc by simp
  qed
  finally show ?thesis .
qed

lemma round_double_gt_0: "0 < x \<Longrightarrow> 0 < round_double x"
  using round_double_pos_bounds(1) [of x] pow2_pos [of "\<lfloor>log 2 x\<rfloor>"] by linarith

lemma round_double_nonneg: "0 \<le> x \<Longrightarrow> 0 \<le> round_double x"
  using round_double_gt_0 [of x] by (cases "x = 0") simp_all

lemma round_double_nonpos: "x \<le> 0 \<Longrightarrow> round_double x \<le> 0"
  using round_double_nonneg [of "- x"] by (simp add: round_double_minus)

lemma round_double_lt_0: "x < 0 \<Longrightarrow> round_double x < 0"
  using round_double_gt_0 [of "- x"] by (simp add: round_double_minus)

lemma round_double_error:
  assumes "\<bar>x\<bar> < pow2 (k + 1)"
  shows "\<bar>round_double x - x\<bar> \<le> pow2 (k - 53)"
proof -
  have pos: "\<bar>round_double y - y\<bar> \<le> pow2 (k - 53)" if "0 < y" "y < pow2 (k + 1)" for y
  proof -
    have "\<lfloor>log 2 y\<rfloor> \<le> k"
      using that by (rule floor_log2_le)
    then have "pow2 (\<lfloor>log 2 y\<rfloor> - 53) \<le> pow2 (k - 53)"
      by (intro pow2_mono) simp
    with round_double_error_pos [OF that(1)] show ?thesis
      by simp
  qed
  consider "x = 0" | "0 < x" | "x < 0" by linarith
  then show ?thesis
  proof cases
    case 1
    then show ?thesis by simp
  next
    case 2
    with assms show ?thesis by (intro pos) simp_all
  next
    case 3
    with assms have "\<bar>round_double (- x) - (- x)\<bar> \<le> pow2 (k - 53)"
      by (intro pos) simp_all
    then show ?thesis
      by (simp add: round_double_minus abs_if split: if_splits)
  qed
qed

lemma round_double_mono_pos:
  assumes "0 < x" "x \<le> y"
  shows "round_double x \<le> round_double y"
proof -
  have y: "0 < y" using assms by simp
  let ?kx = "\<lfloor>log 2 x\<rfloor>" and ?ky = "\<lfloor>log 2 y\<rfloor>"
  have "log 2 x \<le> log 2 y"
    using assms by simp
  then have le: "?kx \<le> ?ky"
    by (rule floor_mono)
  show ?thesis
  proof (cases "?kx = ?ky")
    case True
    have "x / pow2 (?ky - 52) \<le> y / pow2 (?ky - 52)"
      using assms(2) by (simp add: divide_right_mono)
    then have "round_even (x / pow2 (?ky - 52)) \<le> round_even (y / pow2 (?ky - 52))"
      by (rule round_even_mono)
    then have "real_of_int (round_even (x / pow2 (?ky - 52))) * pow2 (?ky - 52)
        \<le> real_of_int (round_even (y / pow2 (?ky - 52))) * pow2 (?ky - 52)"
      by (intro mult_right_mono) simp_all
    then show ?thesis
      unfolding round_double_pos [OF assms(1)] round_double_pos [OF y] True .
  next
    case False
    with le have "?kx + 1 \<le> ?ky" by simp
    then have "pow2 (?kx + 1) \<le> pow2 ?ky" by (rule pow2_mono)
    with round_double_pos_bounds(2) [OF assms(1)] round_double_pos_bounds(1) [OF y]
    show ?thesis by linarith
  qed
qed

lemma round_double_mono:
  assumes "x \<le> y"
  shows "round_double x \<le> round_double y"
proof -
  consider "0 < x" | "x \<le> 0" "0 \<le> y" | "y < 0" using assms by linarith
  then show ?thesis
  proof cases
    case 1
    then show ?thesis using assms by (rule round_double_mono_pos)
  next
    case 2
    then show ?thesis
      using round_double_nonpos [of x] round_double_nonneg [of y] by linarith
  next
    case 3
    with assms have "round_double (- y) \<le> round_double (- x)"
      by (intro round_double_mono_pos) simp_all
    then show ?thesis by (simp add: round_double_minus)
  qed
qed

lemma round_double_representable_pos:
  assumes "0 < m" "m < 2 ^ 53"
  shows "round_double (of_int m * pow2 e) = of_int m * pow2 e"
proof -
  define x where "x = of_int m * pow2 e"
  define k where "k = \<lfloor>log 2 x\<rfloor>"
  have x: "0 < x" using assms(1) by (simp add: x_def)
  have "of_int m < pow2 53"
    unfolding pow2_53 using assms(2) by (simp only: of_int_less_iff)
  then have "x < pow2 53 * pow2 e"
    unfolding x_def by (intro mult_strict_right_mono) simp_all
  also have "\<dots> = pow2 (e + 52 + 1)"
  proof -
    have "53 + e = e + 52 + 1" by simp
    then show ?thesis by (metis pow2_add)
  qed
  finally have "k \<le> e + 52"
    unfolding k_def using x by (intro floor_log2_le)
  then obtain d :: nat where d: "e - (k - 52) = int d"
    using nonneg_int_cases [of "e - (k - 52)"] by auto
  from d have "e = int d + (k - 52)"
    by linarith
  then have "pow2 e = pow2 (int d + (k - 52))"
    by (rule arg_cong)
  then have pe: "pow2 e = 2 ^ d * pow2 (k - 52)"
    by (simp only: pow2_add pow2_nat)
  have "x / pow2 (k - 52) = of_int m * 2 ^ d"
    unfolding x_def pe by simp
  also have "\<dots> = of_int (m * 2 ^ d)"
    by simp
  finally have "round_even (x / pow2 (k - 52)) = m * 2 ^ d"
    by (simp only: round_even_of_int)
  then have "round_double x = of_int (m * 2 ^ d) * pow2 (k - 52)"
    unfolding round_double_pos [OF x] k_def by simp
  also have "\<dots> = of_int m * (2 ^ d * pow2 (k - 52))"
    by simp
  also have "\<dots> = x"
    unfolding x_def pe ..
  finally show ?thesis
    unfolding x_def .
qed

lemma round_double_representable:
  assumes "\<bar>m\<bar> < 2 ^ 53"
  shows "round_double (of_int m * pow2 e) = of_int m * pow2 e"
proof -
  consider "m = 0" | "0 < m" | "m < 0" by linarith
  then show ?thesis
  proof cases
    case 1
    then show ?thesis by simp
  next
    case 2
    with assms show ?thesis by (intro round_double_representable_pos) simp_all
  next
    case 3
    with assms have "round_double (of_int (- m) * pow2 e) = of_int (- m) * pow2 e"
      by (intro round_double_representable_pos) simp_all
    then show ?thesis
      using round_double_minus [of "of_int m * pow2 e"] by simp
  qed
qed

section \<open>The value of Math.PI\<close>

text \<open>
  \<open>Math.PI\<close> lies below \<open>pi\<close>, by less than \<open>2^-52\<close>: the bounds on \<open>pi\<close> come from Machin's
  formula and the alternating series of \<open>arctan\<close>. So \<open>Math.PI\<close> is the double nearest to
  \<open>pi\<close>.
\<close>

lemma arctan_sum_bounds:
  assumes "0 < x" "x \<le> 1"
  shows "arctan_sum x (2 * n) \<le> arctan x" "arctan x \<le> arctan_sum x (2 * n + 1)"
proof -
  have ax: "\<bar>x\<bar> \<le> 1" using assms by simp
  have "0 < 1 / real (0 * 2 + 1) * x ^ (0 * 2 + 1)"
    using assms by simp
  with summable_Leibniz(2) [OF zeroseq_arctan_series [OF ax] monoseq_arctan_series [OF ax]]
  have "arctan x \<in> {arctan_sum x (2 * n) .. arctan_sum x (2 * n + 1)}"
    unfolding arctan_sum_def arctan_series [OF ax] by blast
  then show "arctan_sum x (2 * n) \<le> arctan x" "arctan x \<le> arctan_sum x (2 * n + 1)"
    by simp_all
qed

lemma arctan_sum_Suc:
  "arctan_sum x (Suc n) = arctan_sum x n + (- 1) ^ n * (1 / real (n * 2 + 1) * x ^ (n * 2 + 1))"
  by (simp add: arctan_sum_def)

lemma arctan_sum_0: "arctan_sum x 0 = 0"
  by (simp add: arctan_sum_def)

lemma pi_machin: "pi = 16 * arctan (1 / 5) - 4 * arctan (1 / 239)"
  using machin by simp

lemma pi_lower: "16 * arctan_sum (1 / 5) 12 - 4 * arctan_sum (1 / 239) 3 \<le> pi"
proof -
  have "arctan_sum (1 / 5) (2 * 6) \<le> arctan (1 / 5)"
    by (rule arctan_sum_bounds) simp_all
  moreover have "arctan (1 / 239) \<le> arctan_sum (1 / 239) (2 * 1 + 1)"
    by (rule arctan_sum_bounds) simp_all
  ultimately show ?thesis
    unfolding pi_machin by simp
qed

lemma pi_upper: "pi \<le> 16 * arctan_sum (1 / 5) 13 - 4 * arctan_sum (1 / 239) 4"
proof -
  have "arctan (1 / 5) \<le> arctan_sum (1 / 5) (2 * 6 + 1)"
    by (rule arctan_sum_bounds) simp_all
  moreover have "arctan_sum (1 / 239) (2 * 2) \<le> arctan (1 / 239)"
    by (rule arctan_sum_bounds) simp_all
  ultimately show ?thesis
    unfolding pi_machin by simp
qed

lemma Math_PI_lt_lo: "Math_PI < 16 * arctan_sum (1 / 5) 12 - 4 * arctan_sum (1 / 239) 3"
  unfolding arctan_sum_def Math_PI_def
  by (simp add: lessThan_nat_numeral lessThan_Suc eval_nat_numeral)

lemma hi_lt: "16 * arctan_sum (1 / 5) 13 - 4 * arctan_sum (1 / 239) 4 < Math_PI + 1 / 2 ^ 52"
  unfolding arctan_sum_def Math_PI_def
  by (simp add: lessThan_nat_numeral lessThan_Suc eval_nat_numeral)

lemma Math_PI_lt_pi: "Math_PI < pi"
  using Math_PI_lt_lo pi_lower by linarith

lemma pi_lt_Math_PI: "pi < Math_PI + 1 / 2 ^ 52"
  using hi_lt pi_upper by linarith

lemma Math_PI_pow2: "Math_PI = 7074237752028440 * pow2 (- 51)"
  by (simp add: Math_PI_def pow2_neg_nat [of 51, simplified] field_simps)

lemma round_double_Math_PI [simp]: "round_double Math_PI = Math_PI"
  unfolding Math_PI_pow2
  using round_double_representable [of 7074237752028440 "- 51"] by simp

lemma round_even_unique:
  assumes "of_int n - 1 / 2 < x" "x < of_int n + 1 / 2"
  shows "round_even x = n"
proof -
  have "\<bar>of_int (round_even x) - x\<bar> \<le> 1 / 2"
    by (rule round_even_error)
  with assms have "of_int (round_even x) < (of_int n :: real) + 1"
    "(of_int n :: real) - 1 < of_int (round_even x)"
    by linarith+
  then have "round_even x < n + 1" "n - 1 < round_even x"
    by linarith+
  then show ?thesis by simp
qed

lemma round_even_tie: "round_even (of_int n + 1 / 2) = (if even n then n else n + 1)"
proof -
  have "\<lfloor>(of_int n :: real) + 1 / 2\<rfloor> = n"
    by linarith
  then show ?thesis
    by (simp add: round_even_def Let_def)
qed

lemma round_double_eval:
  assumes "pow2 k \<le> x" "x < pow2 (k + 1)"
  shows "round_double x = of_int (round_even (x / pow2 (k - 52))) * pow2 (k - 52)"
proof -
  have x: "0 < x"
    using assms(1) pow2_pos [of k] by linarith
  from floor_log2_eq [OF x assms] show ?thesis
    by (simp add: round_double_pos [OF x])
qed

lemma round_double_near:
  assumes "pow2 k \<le> x" "x < pow2 (k + 1)"
    and "(of_int n - 1 / 2) * pow2 (k - 52) < x" "x < (of_int n + 1 / 2) * pow2 (k - 52)"
  shows "round_double x = of_int n * pow2 (k - 52)"
proof -
  have "of_int n - 1 / 2 < x / pow2 (k - 52)" "x / pow2 (k - 52) < of_int n + 1 / 2"
    using assms(3,4) by (simp_all add: pos_less_divide_eq pos_divide_less_eq)
  then have "round_even (x / pow2 (k - 52)) = n"
    by (rule round_even_unique)
  then show ?thesis
    by (simp add: round_double_eval [OF assms(1,2)])
qed

lemma round_double_tie:
  assumes "pow2 k \<le> x" "x < pow2 (k + 1)" and "x = (of_int n + 1 / 2) * pow2 (k - 52)"
  shows "round_double x = of_int (if even n then n else n + 1) * pow2 (k - 52)"
proof -
  have "x / pow2 (k - 52) = of_int n + 1 / 2"
    by (simp add: assms(3))
  then show ?thesis
    by (simp only: round_double_eval [OF assms(1,2)] round_even_tie)
qed

lemma pow2_numerals:
  "pow2 1 = 2" "pow2 2 = 4" "pow2 3 = 8" "pow2 (- 50) = 1 / 2 ^ 50" "pow2 (- 51) = 1 / 2 ^ 51"
  "pow2 (- 52) = 1 / 2 ^ 52" "pow2 (- 49) = 1 / 2 ^ 49"
  using pow2_nat [of 1] pow2_nat [of 2] pow2_nat [of 3] pow2_neg_nat [of 50] pow2_neg_nat [of 51]
    pow2_neg_nat [of 52] pow2_neg_nat [of 49]
  by simp_all

lemma Math_PI_bounds: "3 < Math_PI" "Math_PI < 4"
  by (simp_all add: Math_PI_def)


section \<open>The Pauli-Y gate in double precision\<close>

lemma pow2_numeral: "pow2 (numeral n) = 2 ^ numeral n"
  using pow2_nat [of "numeral n"] by simp

lemma pow2_neg_numeral: "pow2 (- numeral n) = 1 / 2 ^ numeral n"
  using pow2_neg_nat [of "numeral n"] by simp

lemma round_double_two_Math_PI [simp]: "round_double (2 * Math_PI) = 2 * Math_PI"
proof -
  have e: "2 * Math_PI = of_int 7074237752028440 * pow2 (- 50)"
    by (simp add: Math_PI_def pow2_neg_numeral)
  show ?thesis
    unfolding e by (rule round_double_representable) simp
qed

lemma round_double_range_PI:
  assumes "0 \<le> x" "x \<le> Math_PI"
  shows "0 \<le> round_double x" "round_double x \<le> Math_PI"
  using round_double_nonneg [OF assms(1)] round_double_mono [OF assms(2)] by simp_all

lemma round_double_range_two_PI:
  assumes "0 \<le> x" "x \<le> 2 * Math_PI"
  shows "0 \<le> round_double x" "round_double x \<le> 2 * Math_PI"
  using round_double_nonneg [OF assms(1)] round_double_mono [OF assms(2)]
  by simp_all

lemma round_double_range_sym_PI:
  assumes "- Math_PI \<le> x" "x \<le> Math_PI"
  shows "- Math_PI \<le> round_double x" "round_double x \<le> Math_PI"
  using round_double_mono [OF assms(1)] round_double_mono [OF assms(2)]
  by (simp_all add: round_double_minus)

lemma round_double_error_4: "\<bar>x\<bar> < 4 \<Longrightarrow> \<bar>round_double x - x\<bar> \<le> 1 / 2 ^ 52"
  using round_double_error [of x 1] by (simp add: pow2_numeral pow2_neg_numeral)

lemma round_double_error_8: "\<bar>x\<bar> < 8 \<Longrightarrow> \<bar>round_double x - x\<bar> \<le> 1 / 2 ^ 51"
  using round_double_error [of x 2] by (simp add: pow2_numeral pow2_neg_numeral)

lemma pauliY_angles_double_Number:
  assumes "0 \<le> p" "p \<le> 2 * Math_PI"
  shows "pauliY_angles_double (Number t, Number p) =
    (Number (round_double (Math_PI - t)), Number (wrap_angle_double (round_double (Math_PI - p))))"
proof -
  define a where "a = round_double (Math_PI - p)"
  have a: "- Math_PI \<le> a" "a \<le> Math_PI"
    unfolding a_def using assms by (intro round_double_range_sym_PI; simp)+
  have "fmod a (2 * Math_PI) = a"
  proof (cases "0 \<le> a")
    case True
    with a Math_PI_bounds show ?thesis by (intro fmod_small) simp_all
  next
    case False
    with a Math_PI_bounds show ?thesis by (intro fmod_small_neg) simp_all
  qed
  moreover have "2 * Math_PI \<noteq> 0"
    using Math_PI_bounds by simp
  ultimately show ?thesis
    by (simp add: pauliY_angles_double_def Let_def wrap_angle_double_def a_def [symmetric])
qed

lemma double_below_two_Math_PI:
  assumes "round_double p = p" "p < 2 * Math_PI"
  shows "p \<le> 2 * Math_PI - 1 / 2 ^ 50"
proof (cases "4 \<le> p")
  case False
  with Math_PI_bounds show ?thesis by simp
next
  case True
  have "p < 8"
    using assms(2) Math_PI_bounds by simp
  with True have "round_double p = of_int (round_even (p / pow2 (2 - 52))) * pow2 (2 - 52)"
    by (intro round_double_eval) (simp_all add: pow2_numeral)
  then obtain n :: int where p: "p = of_int n / 2 ^ 50"
    using assms(1) by (simp add: pow2_neg_numeral)
  with assms(2) have "(of_int n :: real) < of_int 7074237752028440"
    by (simp add: Math_PI_def field_simps)
  then have "n \<le> 7074237752028439"
    by simp
  then have "(of_int n :: real) \<le> 7074237752028439"
    by (metis of_int_le_iff of_int_numeral)
  then show ?thesis
    by (simp add: p Math_PI_def field_simps)
qed

lemma round_double_above_Math_PI:
  "round_double (Math_PI + 1 / 2 ^ 50) = Math_PI + 1 / 2 ^ 50"
proof -
  have e: "Math_PI + 1 / 2 ^ 50 = of_int 7074237752028442 * pow2 (- 51)"
    by (simp add: Math_PI_def pow2_neg_numeral)
  show ?thesis
    unfolding e by (rule round_double_representable) simp
qed

lemma ulp_multiples:
  "(1::real) / 2 ^ 51 = 2 * (1 / 2 ^ 52)" "(3::real) / 2 ^ 51 = 6 * (1 / 2 ^ 52)"
  by simp_all

lemma pauliY_theta_twice:
  assumes "0 \<le> t" "t \<le> Math_PI"
  shows "\<bar>round_double (Math_PI - round_double (Math_PI - t)) - t\<bar> \<le> 1 / 2 ^ 51"
proof -
  define t1 where "t1 = round_double (Math_PI - t)"
  have r: "0 \<le> t1" "t1 \<le> Math_PI"
    unfolding t1_def using assms by (intro round_double_range_PI; simp)+
  have "\<bar>t1 - (Math_PI - t)\<bar> \<le> 1 / 2 ^ 52"
    unfolding t1_def using assms Math_PI_bounds by (intro round_double_error_4) simp
  moreover have "\<bar>round_double (Math_PI - t1) - (Math_PI - t1)\<bar> \<le> 1 / 2 ^ 52"
    using r Math_PI_bounds by (intro round_double_error_4) simp
  ultimately show ?thesis
    unfolding t1_def [symmetric] ulp_multiples by linarith
qed

lemma pauliY_phi_twice:
  assumes "0 \<le> p" "p < 2 * Math_PI" "round_double p = p"
  shows "0 \<le> wrap_angle_double (round_double (Math_PI - p)) \<and>
    wrap_angle_double (round_double (Math_PI - p)) \<le> 2 * Math_PI \<and>
    \<bar>wrap_angle_double (round_double (Math_PI -
        wrap_angle_double (round_double (Math_PI - p)))) - p\<bar> \<le> 3 / 2 ^ 51"
proof -
  define a where "a = round_double (Math_PI - p)"
  have a: "- Math_PI \<le> a" "a \<le> Math_PI"
    unfolding a_def using assms by (intro round_double_range_sym_PI; simp)+
  have e1: "\<bar>a - (Math_PI - p)\<bar> \<le> 1 / 2 ^ 52"
    unfolding a_def using assms Math_PI_bounds by (intro round_double_error_4) (simp add: abs_if)
  show ?thesis
  proof (cases "a < 0")
    case False
    then have w: "wrap_angle_double a = a"
      by (simp add: wrap_angle_double_def)
    define b where "b = round_double (Math_PI - a)"
    have b: "0 \<le> b"
      unfolding b_def using a by (intro round_double_nonneg) simp
    have e2: "\<bar>b - (Math_PI - a)\<bar> \<le> 1 / 2 ^ 52"
      unfolding b_def using a False Math_PI_bounds by (intro round_double_error_4) (simp add: abs_if)
    have "wrap_angle_double b = b"
      using b by (simp add: wrap_angle_double_def)
    moreover have "\<bar>b - p\<bar> \<le> 3 / 2 ^ 51"
      using e1 e2 unfolding ulp_multiples by linarith
    ultimately show ?thesis
      unfolding a_def [symmetric] w b_def [symmetric] using False a Math_PI_bounds by simp
  next
    case True
    define p1 where "p1 = round_double (a + 2 * Math_PI)"
    have w: "wrap_angle_double a = p1"
      using True by (simp add: wrap_angle_double_def p1_def)
    have r1: "0 \<le> p1" "p1 \<le> 2 * Math_PI"
      unfolding p1_def using a True Math_PI_bounds by (intro round_double_range_two_PI; simp)+
    have e2: "\<bar>p1 - (a + 2 * Math_PI)\<bar> \<le> 1 / 2 ^ 51"
      unfolding p1_def using a True Math_PI_bounds by (intro round_double_error_8) (simp add: abs_if)
    have "p \<le> 2 * Math_PI - 1 / 2 ^ 50"
      using assms(3,2) by (rule double_below_two_Math_PI)
    then have "- Math_PI + 1 / 2 ^ 50 \<le> Math_PI - p"
      by simp
    then have "round_double (- Math_PI + 1 / 2 ^ 50) \<le> a"
      unfolding a_def by (rule round_double_mono)
    moreover have "round_double (- Math_PI + 1 / 2 ^ 50) = - Math_PI + 1 / 2 ^ 50"
    proof -
      have e: "- Math_PI + 1 / 2 ^ 50 = of_int (- 7074237752028438) * pow2 (- 51)"
        by (simp add: Math_PI_def pow2_neg_numeral)
      show ?thesis
        unfolding e by (rule round_double_representable) simp
    qed
    ultimately have "Math_PI + 1 / 2 ^ 50 \<le> a + 2 * Math_PI"
      by linarith
    then have "round_double (Math_PI + 1 / 2 ^ 50) \<le> p1"
      unfolding p1_def by (rule round_double_mono)
    then have p1: "Math_PI + 1 / 2 ^ 50 \<le> p1"
      by (simp only: round_double_above_Math_PI)
    define b where "b = round_double (Math_PI - p1)"
    have "Math_PI - p1 < 0"
      using p1 by (simp add: algebra_simps add_pos_nonneg)
    then have b: "b < 0"
      unfolding b_def by (rule round_double_lt_0)
    have b': "- Math_PI \<le> b"
      unfolding b_def using r1 by (intro round_double_range_sym_PI) simp_all
    have e3: "\<bar>b - (Math_PI - p1)\<bar> \<le> 1 / 2 ^ 52"
      unfolding b_def using r1 p1 Math_PI_bounds by (intro round_double_error_4) (simp add: abs_if)
    have e4: "\<bar>round_double (b + 2 * Math_PI) - (b + 2 * Math_PI)\<bar> \<le> 1 / 2 ^ 51"
      using b b' Math_PI_bounds by (intro round_double_error_8) (simp add: abs_if)
    have "wrap_angle_double b = round_double (b + 2 * Math_PI)"
      using b by (simp add: wrap_angle_double_def)
    moreover have "\<bar>round_double (b + 2 * Math_PI) - p\<bar> \<le> 3 / 2 ^ 51"
      using e1 e2 e3 e4 unfolding ulp_multiples by linarith
    ultimately show ?thesis
      unfolding a_def [symmetric] w b_def [symmetric] using r1 by simp
  qed
qed

lemma round_double_Math_PI_180:
  "round_double (Math_PI / 180) = 5030569068109113 / 2 ^ 58"
proof -
  have "round_double (Math_PI / 180) = of_int 5030569068109113 * pow2 (- 6 - 52)"
    by (rule round_double_near) (simp_all add: pow2_neg_numeral Math_PI_def)
  then show ?thesis
    by (simp add: pow2_neg_numeral)
qed

lemma one_degree_value: "one_degree = Number (5030569068109113 / 2 ^ 58)"
  by (simp add: one_degree_def thetaSliderInput_double_def round_double_Math_PI_180)

lemma round_double_PI_minus_one_degree:
  "round_double (Math_PI - 5030569068109113 / 2 ^ 58) = 7034936431183838 / 2 ^ 51"
proof -
  have "round_double (Math_PI - 5030569068109113 / 2 ^ 58) =
      of_int 7034936431183838 * pow2 (1 - 52)"
    by (rule round_double_near) (simp_all add: pow2_numerals pow2_numeral pow2_neg_numeral Math_PI_def)
  then show ?thesis
    by (simp add: pow2_neg_numeral)
qed

lemma round_double_PI_minus_that:
  "round_double (Math_PI - 7034936431183838 / 2 ^ 51) = 19650660422301 / 2 ^ 50"
proof -
  have e: "Math_PI - 7034936431183838 / 2 ^ 51 = of_int 19650660422301 * pow2 (- 50)"
    by (simp add: Math_PI_def pow2_neg_numeral)
  have "round_double (of_int 19650660422301 * pow2 (- 50)) = of_int 19650660422301 * pow2 (- 50)"
    by (rule round_double_representable) simp
  then show ?thesis
    unfolding e by (simp add: pow2_neg_numeral)
qed

lemma pauliY_one_degree:
  "pauliY_angles_double (one_degree, one_degree) =
     (Number (7034936431183838 / 2 ^ 51), Number (7034936431183838 / 2 ^ 51))"
proof -
  have b: "(0::real) \<le> 5030569068109113 / 2 ^ 58" "5030569068109113 / 2 ^ 58 \<le> 2 * Math_PI"
    by (simp_all add: Math_PI_def)
  show ?thesis
    unfolding one_degree_value
    by (simp only: pauliY_angles_double_Number [OF b] round_double_PI_minus_one_degree
        wrap_angle_double_def) simp
qed

lemma pauliY_twice_one_degree_value:
  "pauliY_angles_double (pauliY_angles_double (one_degree, one_degree)) =
     (Number (19650660422301 / 2 ^ 50), Number (19650660422301 / 2 ^ 50))"
proof -
  have b: "(0::real) \<le> 7034936431183838 / 2 ^ 51" "7034936431183838 / 2 ^ 51 \<le> 2 * Math_PI"
    by (simp_all add: Math_PI_def)
  show ?thesis
    unfolding pauliY_one_degree
    by (simp only: pauliY_angles_double_Number [OF b] round_double_PI_minus_that
        wrap_angle_double_def) simp
qed

text \<open>
  C10 (as amended). In double precision, for \<open>theta\<close> in \<open>[0, Math.PI]\<close> and a double \<open>phi\<close>
  in \<open>[0, 2 * Math.PI)\<close>, the Pauli-Y angles are \<open>theta' = Math.PI - theta\<close> and
  \<open>phi' = (Math.PI - phi) % (2 * Math.PI)\<close>, plus \<open>2 * Math.PI\<close> when negative, each
  subtraction and addition rounded. Taking them twice returns a \<open>theta\<close> within \<open>2^-51\<close> and
  a \<open>phi\<close> within \<open>3 * 2^-51\<close> of the original ones: the original angles up to the rounding
  of the operations, and not exactly (see below).
\<close>

theorem pauliY_twice_double:
  assumes "0 \<le> t" "t \<le> Math_PI" "0 \<le> p" "p < 2 * Math_PI" "round_double p = p"
  shows "pauliY_angles_double (Number t, Number p) =
      (Number (round_double (Math_PI - t)),
       Number (wrap_angle_double (fmod (round_double (Math_PI - p)) (2 * Math_PI)))) \<and>
    (\<exists>t2 p2. pauliY_angles_double (pauliY_angles_double (Number t, Number p)) =
        (Number t2, Number p2) \<and>
      \<bar>t2 - t\<bar> \<le> 1 / 2 ^ 51 \<and> \<bar>p2 - p\<bar> \<le> 3 / 2 ^ 51)"
proof -
  have "2 * Math_PI \<noteq> 0"
    using Math_PI_bounds by simp
  then have once: "pauliY_angles_double (Number t, Number p) =
      (Number (round_double (Math_PI - t)),
       Number (wrap_angle_double (fmod (round_double (Math_PI - p)) (2 * Math_PI))))"
    by (simp add: pauliY_angles_double_def Let_def wrap_angle_double_def)
  note phi = pauliY_phi_twice [OF assms(3,4,5)]
  have p: "p \<le> 2 * Math_PI"
    using assms(4) by simp
  have "pauliY_angles_double (pauliY_angles_double (Number t, Number p)) =
      (Number (round_double (Math_PI - round_double (Math_PI - t))),
       Number (wrap_angle_double (round_double (Math_PI -
         wrap_angle_double (round_double (Math_PI - p))))))"
    using phi by (simp add: pauliY_angles_double_Number [OF assms(3) p] pauliY_angles_double_Number)
  with pauliY_theta_twice [OF assms(1,2)] phi once show ?thesis
    by blast
qed

theorem pauliY_twice_double_witness:
  "\<exists>t2 p2. pauliY_angles_double (pauliY_angles_double (one_degree, one_degree)) =
        (Number t2, Number p2) \<and>
      \<bar>t2 - 5030569068109113 / 2 ^ 58\<bar> \<le> 1 / 2 ^ 51 \<and>
      \<bar>p2 - 5030569068109113 / 2 ^ 58\<bar> \<le> 3 / 2 ^ 51"
proof -
  have "round_double (of_int 5030569068109113 * pow2 (- 58)) =
      of_int 5030569068109113 * pow2 (- 58)"
    by (rule round_double_representable) simp
  then have d: "round_double (5030569068109113 / 2 ^ 58) = 5030569068109113 / 2 ^ 58"
    by (simp add: pow2_neg_numeral)
  have r: "(0::real) \<le> 5030569068109113 / 2 ^ 58" "5030569068109113 / 2 ^ 58 \<le> Math_PI"
    "5030569068109113 / 2 ^ 58 < 2 * Math_PI"
    by (simp_all add: Math_PI_def)
  from pauliY_twice_double [OF r(1,2,1,3) d] show ?thesis
    unfolding one_degree_value by (rule conjunct2)
qed

text \<open>
  As the specification states it (exactly the original angles), the property fails in
  double precision. The sliders at one degree store \<open>0.017453292519943295\<close> for both
  angles, the double \<open>5030569068109113 / 2^58\<close>; the Pauli-Y angles of that state are
  \<open>3.12413936106985\<close>, and the Pauli-Y angles of these are \<open>0.017453292519943098\<close>, the
  double \<open>19650660422301 / 2^50\<close>.
\<close>

theorem pauliY_twice_not_exact:
  "one_degree = Number (5030569068109113 / 2 ^ 58) \<and>
   in_range_double (one_degree, one_degree) \<and>
   pauliY_angles_double (pauliY_angles_double (one_degree, one_degree)) =
     (Number (19650660422301 / 2 ^ 50), Number (19650660422301 / 2 ^ 50)) \<and>
   pauliY_angles_double (pauliY_angles_double (one_degree, one_degree)) \<noteq>
     (one_degree, one_degree)"
  unfolding pauliY_twice_one_degree_value
  by (simp add: one_degree_value Math_PI_def)

section \<open>Measurement in double precision\<close>

lemma round_double_1 [simp]: "round_double 1 = 1"
  using round_double_representable [of 1 0] by simp

lemma round_double_half_Math_PI [simp]: "round_double (Math_PI / 2) = Math_PI / 2"
proof -
  have e: "Math_PI / 2 = of_int 7074237752028440 * pow2 (- 52)"
    by (simp add: Math_PI_def pow2_neg_numeral)
  show ?thesis
    unfolding e by (rule round_double_representable) simp
qed

lemma cos_half_Math_PI: "0 < cos (Math_PI / 2)" "cos (Math_PI / 2) \<le> 1 / 2 ^ 53"
proof -
  define d where "d = pi / 2 - Math_PI / 2"
  have d: "0 < d" "d < 1 / 2 ^ 53"
    using Math_PI_lt_pi pi_lt_Math_PI by (simp_all add: d_def)
  have c: "cos (Math_PI / 2) = sin d"
    unfolding d_def by (simp add: sin_diff)
  have "(1::real) / 2 ^ 53 \<le> 2"
    by simp
  with d(2) pi_ge_two have "d < pi"
    by linarith
  with d show "0 < cos (Math_PI / 2)"
    unfolding c by (intro sin_gt_zero)
  have "sin d \<le> d"
    using d by (intro sin_x_le_x) simp
  with d show "cos (Math_PI / 2) \<le> 1 / 2 ^ 53"
    unfolding c by linarith
qed

lemma prob0_double_Number:
  "theta s = Number t \<Longrightarrow>
   prob0_double s =
     Number (round_double (round_double (cos (round_double (t / 2))) *
       round_double (cos (round_double (t / 2)))))"
  by (simp add: prob0_double_def Let_def)

lemma prob0_double_ground: "theta s = Number 0 \<Longrightarrow> prob0_double s = Number 1"
  by (simp add: prob0_double_Number)

lemma prob0_double_excited:
  assumes "theta s = Number Math_PI"
  obtains q where "prob0_double s = Number q" "0 < q" "q \<le> 1 / 2 ^ 106"
proof -
  define c where "c = round_double (cos (Math_PI / 2))"
  have c0: "0 < c"
    unfolding c_def using cos_half_Math_PI(1) by (rule round_double_gt_0)
  have "c \<le> round_double (1 / 2 ^ 53)"
    unfolding c_def using cos_half_Math_PI(2) by (rule round_double_mono)
  moreover have "round_double (of_int 1 * pow2 (- 53)) = of_int 1 * pow2 (- 53)"
    by (rule round_double_representable) simp
  ultimately have c1: "c \<le> 1 / 2 ^ 53"
    by (simp add: pow2_neg_numeral)
  have "c * c \<le> (1 / 2 ^ 53) * (1 / 2 ^ 53)"
    using c0 c1 by (intro mult_mono) simp_all
  then have "c * c \<le> 1 / 2 ^ 106"
    by simp
  then have "round_double (c * c) \<le> round_double (1 / 2 ^ 106)"
    by (rule round_double_mono)
  moreover have "round_double (of_int 1 * pow2 (- 106)) = of_int 1 * pow2 (- 106)"
    by (rule round_double_representable) simp
  ultimately have "round_double (c * c) \<le> 1 / 2 ^ 106"
    by (simp add: pow2_neg_numeral)
  moreover have "0 < round_double (c * c)"
    using c0 by (intro round_double_gt_0) simp
  moreover have "prob0_double s = Number (round_double (c * c))"
    by (simp add: prob0_double_Number [OF assms] c_def)
  ultimately show ?thesis
    using that by blast
qed

text \<open>
  C3 (as amended). In double precision the measurement callback takes one sample \<open>u\<close> of
  \<open>Math.random()\<close>, in \<open>[0, 1)\<close>. Its outcome is 0 exactly when \<open>u < prob0\<close>, the double
  \<open>Math.cos(theta / 2) ** 2\<close>, and 1 otherwise, and it calls \<open>animateToState\<close> with the
  target \<open>(0, 0)\<close> for the outcome 0 and \<open>(Math.PI, 0)\<close> for the outcome 1, with the default
  duration; on an idle visualizer this starts the transition to that pole. For every
  sample the outcome is 0 when \<open>theta = 0\<close>. When \<open>theta = Math.PI\<close>, \<open>prob0\<close> is not 0: it is
  a positive double of at most \<open>2^-106\<close> (\<open>Math.PI\<close> lies below \<open>pi\<close>, so the cosine of its
  half is positive). The outcome is then 1 for every sample from \<open>prob0\<close> on, so for
  every sample from \<open>2^-106\<close> on, and 0 for a sample below \<open>prob0\<close>.
\<close>

theorem performMeasurement_double_outcome:
  assumes "0 \<le> u" and "u < 1"
  shows "performMeasurement_double u now s =
      (if js_lt (Number u) (prob0_double s)
       then (0, animateToState (Number 0) (Number 0) default_duration now s)
       else (1, animateToState (Number Math_PI) (Number 0) default_duration now s)) \<and>
    (\<not> isAnimating s \<longrightarrow>
       isAnimating (snd (performMeasurement_double u now s)) \<and>
       targetTheta (last (frameRequests (snd (performMeasurement_double u now s)))) =
         (if fst (performMeasurement_double u now s) = 0 then Number 0 else Number Math_PI) \<and>
       targetPhi (last (frameRequests (snd (performMeasurement_double u now s)))) = Number 0) \<and>
    (theta s = Number 0 \<longrightarrow> fst (performMeasurement_double u now s) = 0) \<and>
    (theta s = Number Math_PI \<longrightarrow>
       (\<exists>q. prob0_double s = Number q \<and> 0 < q \<and> q \<le> 1 / 2 ^ 106 \<and>
          fst (performMeasurement_double u now s) = (if u < q then 0 else 1)))"
proof -
  have a: "performMeasurement_double u now s =
      (if js_lt (Number u) (prob0_double s)
       then (0, animateToState (Number 0) (Number 0) default_duration now s)
       else (1, animateToState (Number Math_PI) (Number 0) default_duration now s))"
    by (simp add: performMeasurement_double_def Let_def)
  have b: "isAnimating (snd (performMeasurement_double u now s)) \<and>
       targetTheta (last (frameRequests (snd (performMeasurement_double u now s)))) =
         (if fst (performMeasurement_double u now s) = 0 then Number 0 else Number Math_PI) \<and>
       targetPhi (last (frameRequests (snd (performMeasurement_double u now s)))) = Number 0"
    if "\<not> isAnimating s"
    using that by (simp add: a animateToState_def)
  have c: "fst (performMeasurement_double u now s) = 0" if "theta s = Number 0"
    using assms(2) by (simp add: a prob0_double_ground [OF that])
  have d: "\<exists>q. prob0_double s = Number q \<and> 0 < q \<and> q \<le> 1 / 2 ^ 106 \<and>
          fst (performMeasurement_double u now s) = (if u < q then 0 else 1)"
    if "theta s = Number Math_PI"
  proof -
    from that obtain q where q: "prob0_double s = Number q" "0 < q" "q \<le> 1 / 2 ^ 106"
      by (rule prob0_double_excited)
    have "fst (performMeasurement_double u now s) = (if u < q then 0 else 1)"
      by (simp add: a q(1))
    with q show ?thesis by blast
  qed
  from a b c d show ?thesis
    by blast
qed

theorem performMeasurement_double_outcome_witness:
  "performMeasurement_double (1 / 2) 7 initial =
     (0, animateToState (Number 0) (Number 0) default_duration 7 initial) \<and>
   performMeasurement_double (1 / 2) 7 excited_double =
     (1, animateToState (Number Math_PI) (Number 0) default_duration 7 excited_double) \<and>
   targetTheta (last (frameRequests (snd (performMeasurement_double (1 / 2) 7 excited_double)))) =
     Number Math_PI"
proof -
  have h: "(0::real) \<le> 1 / 2" "(1::real) / 2 < 1"
    by simp_all
  have i: "theta initial = Number 0" "\<not> isAnimating initial"
    by (simp_all add: initial_def)
  have e: "theta excited_double = Number Math_PI" "\<not> isAnimating excited_double"
    by (simp_all add: excited_double_def)
  from performMeasurement_double_outcome [OF h, of 7 initial] i
  have "fst (performMeasurement_double (1 / 2) 7 initial) = 0"
    by blast
  then have 1: "performMeasurement_double (1 / 2) 7 initial =
     (0, animateToState (Number 0) (Number 0) default_duration 7 initial)"
    by (simp add: performMeasurement_double_def Let_def)
  from performMeasurement_double_outcome [OF h, of 7 excited_double] e
  obtain q :: real where q: "q \<le> 1 / 2 ^ 106"
      "fst (performMeasurement_double (1 / 2) 7 excited_double) = (if 1 / 2 < q then 0 else 1)"
      and t: "targetTheta (last (frameRequests (snd (performMeasurement_double (1 / 2) 7 excited_double)))) =
         (if fst (performMeasurement_double (1 / 2) 7 excited_double) = 0 then Number 0 else Number Math_PI)"
    by blast
  have "(1::real) / 2 ^ 106 \<le> 1 / 2"
    by simp
  with q have f: "fst (performMeasurement_double (1 / 2) 7 excited_double) = 1"
    by simp
  then have 2: "performMeasurement_double (1 / 2) 7 excited_double =
     (1, animateToState (Number Math_PI) (Number 0) default_duration 7 excited_double)"
    by (simp add: performMeasurement_double_def Let_def split: if_splits)
  from 1 2 t f show ?thesis
    by simp
qed

text \<open>
  As the specification states it (\<open>theta = pi\<close> yields the outcome 1 for every sample), the
  property fails in double precision: in the state with \<open>theta = Math.PI\<close> the sample 0,
  which \<open>Math.random()\<close> can return, yields the outcome 0 and a collapse to \<open>(0, 0)\<close>.
\<close>

theorem measurement_of_excited_yields_0:
  "theta excited_double = Number Math_PI \<and>
   performMeasurement_double 0 7 excited_double =
     (0, animateToState (Number 0) (Number 0) default_duration 7 excited_double)"
proof -
  have e: "theta excited_double = Number Math_PI"
    by (simp add: excited_double_def)
  then obtain q where "prob0_double excited_double = Number q" "0 < q"
    by (rule prob0_double_excited)
  then show ?thesis
    by (simp add: performMeasurement_double_def Let_def e)
qed

section \<open>The angle ranges in double precision\<close>


lemma round_double_minus_1 [simp]: "round_double (- 1) = - 1"
  by (simp add: round_double_minus)








lemma hadamard_angles_double_general:
  assumes "\<not> \<bar>t\<bar> < round_double (1 / 10 ^ 10)"
    and "\<not> \<bar>round_double (t - Math_PI)\<bar> < round_double (1 / 10 ^ 10)"
  shows "hadamard_angles_double (Number t, Number p) =
    (Math_acos_double (Number (round_double (round_double (sin t) * round_double (cos p)))),
     Number (wrap_angle_double (round_double
       (atan2 (- round_double (round_double (sin t) * round_double (sin p)))
          (round_double (cos t))))))"
  using assms by (simp add: hadamard_angles_double_def Let_def wrap_angle_double_def)







lemma in_range_double_closed: "in_range_double a \<Longrightarrow> in_range_closed a"
  by (cases a rule: in_range_double.cases) simp_all







section \<open>The Hadamard gate in double precision\<close>

text \<open>
  In double precision the round trip of the ground state is exact: \<open>(0, 0)\<close> goes to
  \<open>(Math.PI / 2, 0)\<close> by the first special case, and that goes back to \<open>(0, 0)\<close> by the
  general case. Next to \<open>|+>\<close> the general case loses the angle: for \<open>phi\<close> up to \<open>2^-26.5\<close>
  (about \<open>1.05e-8\<close>) in absolute value the cosine of \<open>phi\<close> rounds to 1, so
  \<open>theta' = Math.acos(1) = 0\<close>, and the second application takes the first special case
  and returns \<open>(Math.PI / 2, 0)\<close>, whatever \<open>phi\<close> was. So taking the Hadamard angles twice
  moves the state \<open>(Math.PI / 2, 1e-8)\<close> by \<open>1e-8\<close>, a hundred times the threshold of the
  special cases.
\<close>

lemma pow2_minus_1: "pow2 (- 1) = 1 / 2"
  using pow2_neg_nat [of 1] by simp

lemma round_double_near_1:
  assumes "1 - 1 / 2 ^ 54 \<le> y" "y \<le> 1"
  shows "round_double y = 1"
proof -
  have "round_double (1 - 1 / 2 ^ 54) =
      of_int (if even (9007199254740991::int) then 9007199254740991 else 9007199254740991 + 1) *
        pow2 (- 1 - 52)"
    by (rule round_double_tie) (simp_all add: pow2_minus_1 pow2_neg_numeral)
  then have "round_double (1 - 1 / 2 ^ 54) = 1"
    by (simp add: pow2_neg_numeral)
  with round_double_mono [OF assms(1)] round_double_mono [OF assms(2)] show ?thesis
    by simp
qed

lemma cos_near_1:
  assumes "(d :: real)\<^sup>2 \<le> 1 / 2 ^ 53"
  shows "1 - 1 / 2 ^ 54 \<le> cos d" "cos d \<le> 1"
proof -
  have "\<bar>sin (d / 2)\<bar> \<le> \<bar>d / 2\<bar>"
    by (rule abs_sin_x_le_abs_x)
  then have "(sin (d / 2))\<^sup>2 \<le> (d / 2)\<^sup>2"
    by (simp only: abs_le_square_iff)
  also have "\<dots> = d\<^sup>2 / 4"
    by (simp add: power2_eq_square)
  finally have "(sin (d / 2))\<^sup>2 \<le> 1 / 2 ^ 55"
    using assms by simp
  moreover have "cos d = 1 - 2 * (sin (d / 2))\<^sup>2"
    using cos_double_sin [of "d / 2"] by simp
  ultimately show "1 - 1 / 2 ^ 54 \<le> cos d"
    by simp
  show "cos d \<le> 1"
    by simp
qed

lemma round_double_sin_half_Math_PI: "round_double (sin (Math_PI / 2)) = 1"
proof -
  define d where "d = pi / 2 - Math_PI / 2"
  have "0 < d" "d < 1 / 2 ^ 53"
    using Math_PI_lt_pi pi_lt_Math_PI by (simp_all add: d_def)
  then have "\<bar>d\<bar> \<le> \<bar>1 / 2 ^ 53\<bar>"
    by simp
  then have "d\<^sup>2 \<le> (1 / 2 ^ 53)\<^sup>2"
    by (simp only: abs_le_square_iff)
  then have "d\<^sup>2 \<le> 1 / 2 ^ 53"
    by (simp add: power2_eq_square)
  moreover have "sin (Math_PI / 2) = cos d"
    unfolding d_def by (simp add: cos_diff)
  ultimately show ?thesis
    using cos_near_1 [of d] by (simp add: round_double_near_1)
qed

lemma threshold_bounds: "0 < round_double (1 / 10 ^ 10)" "round_double (1 / 10 ^ 10) \<le> 1"
proof -
  show "0 < round_double (1 / 10 ^ 10)"
    by (rule round_double_gt_0) simp
  have "round_double (1 / 10 ^ 10) \<le> round_double 1"
    by (rule round_double_mono) simp
  then show "round_double (1 / 10 ^ 10) \<le> 1"
    by simp
qed

lemma hadamard_angles_double_ground:
  "fst a = Number 0 \<Longrightarrow> hadamard_angles_double a = (Number (Math_PI / 2), Number 0)"
  using threshold_bounds(1) by (simp add: hadamard_angles_double_def)

lemma half_Math_PI_general:
  "\<not> \<bar>Math_PI / 2\<bar> < round_double (1 / 10 ^ 10)"
  "\<not> \<bar>round_double (Math_PI / 2 - Math_PI)\<bar> < round_double (1 / 10 ^ 10)"
proof -
  have "round_double (Math_PI / 2 - Math_PI) = - (Math_PI / 2)"
    using round_double_minus [of "Math_PI / 2"] by simp
  then show "\<not> \<bar>Math_PI / 2\<bar> < round_double (1 / 10 ^ 10)"
    "\<not> \<bar>round_double (Math_PI / 2 - Math_PI)\<bar> < round_double (1 / 10 ^ 10)"
    using threshold_bounds(2) Math_PI_bounds by simp_all
qed

lemma hadamard_near_plus_double:
  assumes "p\<^sup>2 \<le> 1 / 2 ^ 53"
  shows "fst (hadamard_angles_double (Number (Math_PI / 2), Number p)) = Number 0"
proof -
  have "round_double (cos p) = 1"
    using cos_near_1 [OF assms] by (rule round_double_near_1)
  then show ?thesis
    by (simp add: hadamard_angles_double_general [OF half_Math_PI_general]
        round_double_sin_half_Math_PI)
qed

lemma hadamard_ground_double:
  "hadamard_angles_double (Number 0, Number 0) = (Number (Math_PI / 2), Number 0)"
  by (rule hadamard_angles_double_ground) simp

lemma hadamard_plus_double:
  "hadamard_angles_double (Number (Math_PI / 2), Number 0) = (Number 0, Number 0)"
proof -
  have "0 < round_double (cos (Math_PI / 2))"
    using cos_half_Math_PI(1) by (rule round_double_gt_0)
  then show ?thesis
    by (simp add: hadamard_angles_double_general [OF half_Math_PI_general]
        round_double_sin_half_Math_PI atan2_def wrap_angle_double_def)
qed

lemma round_double_1e8: "round_double (1 / 10 ^ 8) = 3022314549036573 / 2 ^ 78"
proof -
  have "round_double (1 / 10 ^ 8) = of_int 6044629098073146 * pow2 (- 27 - 52)"
    by (rule round_double_near) (simp_all add: pow2_neg_numeral)
  then show ?thesis
    by (simp add: pow2_neg_numeral)
qed

lemma hadamard_twice_near_plus_double:
  "hadamard_angles_double (hadamard_angles_double
      (Number (Math_PI / 2), Number (round_double (1 / 10 ^ 8)))) =
     (Number (Math_PI / 2), Number 0)"
proof -
  have "(round_double (1 / 10 ^ 8))\<^sup>2 \<le> 1 / 2 ^ 53"
    unfolding round_double_1e8 by (simp add: power2_eq_square)
  then have "fst (hadamard_angles_double
      (Number (Math_PI / 2), Number (round_double (1 / 10 ^ 8)))) = Number 0"
    by (rule hadamard_near_plus_double)
  then show ?thesis
    by (rule hadamard_angles_double_ground)
qed

lemma round_double_half [simp]: "round_double (1 / 2) = 1 / 2"
  using round_double_representable [of 1 "- 1"] by (simp add: pow2_minus_1)

lemma round_double_sin_Math_PI:
  "0 < round_double (sin Math_PI)" "round_double (sin Math_PI) \<le> 1 / 2 ^ 52"
proof -
  define d where "d = pi - Math_PI"
  have d: "0 < d" "d < 1 / 2 ^ 52"
    using Math_PI_lt_pi pi_lt_Math_PI by (simp_all add: d_def)
  have s: "sin Math_PI = sin d"
    unfolding d_def by simp
  have "(1::real) / 2 ^ 52 \<le> 2"
    by simp
  with d(2) pi_ge_two have "d < pi"
    by linarith
  with d(1) have "0 < sin Math_PI"
    unfolding s by (rule sin_gt_zero)
  then show "0 < round_double (sin Math_PI)"
    by (rule round_double_gt_0)
  have "sin d \<le> d"
    using d(1) by (intro sin_x_le_x) simp
  with d(2) have "sin Math_PI \<le> 1 / 2 ^ 52"
    unfolding s by linarith
  then have "round_double (sin Math_PI) \<le> round_double (1 / 2 ^ 52)"
    by (rule round_double_mono)
  moreover have "round_double (of_int 1 * pow2 (- 52)) = of_int 1 * pow2 (- 52)"
    by (rule round_double_representable) simp
  ultimately show "round_double (sin Math_PI) \<le> 1 / 2 ^ 52"
    by (simp add: pow2_neg_numeral)
qed

lemma round_double_sin_half:
  "0 < round_double (sin (1 / 2))" "round_double (sin (1 / 2)) \<le> 1 / 2"
proof -
  have "(1::real) / 2 < pi"
    using pi_ge_two by simp
  then have "0 < sin ((1::real) / 2)"
    by (intro sin_gt_zero) simp_all
  then show "0 < round_double (sin (1 / 2))"
    by (rule round_double_gt_0)
  have "sin ((1::real) / 2) \<le> 1 / 2"
    by (intro sin_x_le_x) simp
  then have "round_double (sin (1 / 2)) \<le> round_double (1 / 2)"
    by (rule round_double_mono)
  then show "round_double (sin (1 / 2)) \<le> 1 / 2"
    by simp
qed

lemma round_double_cos_half: "7 / 8 \<le> round_double (cos (1 / 2))"
proof -
  have "\<bar>sin ((1::real) / 4)\<bar> \<le> \<bar>1 / 4\<bar>"
    by (rule abs_sin_x_le_abs_x)
  then have "(sin ((1::real) / 4))\<^sup>2 \<le> (1 / 4)\<^sup>2"
    by (simp only: abs_le_square_iff)
  moreover have "cos ((1::real) / 2) = 1 - 2 * (sin (1 / 4))\<^sup>2"
    using cos_double_sin [of "(1::real) / 4"] by simp
  ultimately have "7 / 8 \<le> cos ((1::real) / 2)"
    by (simp add: power2_eq_square)
  then have "round_double (7 / 8) \<le> round_double (cos (1 / 2))"
    by (rule round_double_mono)
  moreover have "round_double (of_int 7 * pow2 (- 3)) = of_int 7 * pow2 (- 3)"
    by (rule round_double_representable) simp
  ultimately show ?thesis
    by (simp add: pow2_neg_numeral)
qed

lemma round_double_just_below_two_Math_PI:
  assumes "2 * Math_PI - 1 / 2 ^ 52 \<le> w" "w \<le> 2 * Math_PI"
  shows "round_double w = 2 * Math_PI"
proof -
  have "round_double (2 * Math_PI - 1 / 2 ^ 52) = of_int 7074237752028440 * pow2 (2 - 52)"
    by (rule round_double_near) (simp_all add: pow2_numeral pow2_neg_numeral Math_PI_def)
  then have "round_double (2 * Math_PI - 1 / 2 ^ 52) = 2 * Math_PI"
    by (simp add: pow2_neg_numeral Math_PI_def)
  with round_double_mono [OF assms(1)] round_double_mono [OF assms(2)] show ?thesis
    by simp
qed

text \<open>
  The Hadamard gate reaches the upper end of the range of \<open>phi\<close> as well. At
  \<open>(theta, phi) = (0.5, Math.PI)\<close> the sine of \<open>phi\<close> is not 0 but a positive double below
  \<open>2^-52\<close>, so \<open>y2\<close> is negative, \<open>Math.atan2(y2, x2)\<close> is a negative angle of at most \<open>2^-52\<close>
  in absolute value, and adding \<open>2 * Math.PI\<close> to it rounds to \<open>2 * Math.PI\<close>.
\<close>

lemma hadamard_reaches_two_Math_PI:
  "snd (hadamard_angles_double (Number (1 / 2), Number Math_PI)) = Number (2 * Math_PI)"
proof -
  have g1: "\<not> \<bar>1 / 2\<bar> < round_double (1 / 10 ^ 10)"
  proof -
    have "round_double (1 / 10 ^ 10) \<le> round_double (1 / 2)"
      by (rule round_double_mono) simp
    then show ?thesis by simp
  qed
  have g2: "\<not> \<bar>round_double (1 / 2 - Math_PI)\<bar> < round_double (1 / 10 ^ 10)"
  proof -
    have "round_double (1 / 2 - Math_PI) \<le> round_double (- 1)"
      using Math_PI_bounds by (intro round_double_mono) simp
    then have "1 \<le> \<bar>round_double (1 / 2 - Math_PI)\<bar>"
      by simp
    with threshold_bounds(2) show ?thesis
      by linarith
  qed
  define s where "s = round_double (sin (1 / 2))"
  define sp where "sp = round_double (sin Math_PI)"
  define y where "y = round_double (s * sp)"
  define z where "z = round_double (cos (1 / 2))"
  define a where "a = round_double (atan2 (- y) z)"
  have s: "0 < s" "s \<le> 1 / 2"
    unfolding s_def by (rule round_double_sin_half)+
  have sp: "0 < sp" "sp \<le> 1 / 2 ^ 52"
    unfolding sp_def by (rule round_double_sin_Math_PI)+
  have "s * sp \<le> (1 / 2) * (1 / 2 ^ 52)"
    using s sp by (intro mult_mono) simp_all
  then have "y \<le> round_double (1 / 2 ^ 53)"
    unfolding y_def by (intro round_double_mono) simp
  moreover have "round_double (of_int 1 * pow2 (- 53)) = of_int 1 * pow2 (- 53)"
    by (rule round_double_representable) simp
  ultimately have y1: "y \<le> 1 / 2 ^ 53"
    by (simp add: pow2_neg_numeral)
  have y0: "0 < y"
    unfolding y_def using s sp by (intro round_double_gt_0) simp
  have z: "7 / 8 \<le> z"
    unfolding z_def by (rule round_double_cos_half)
  have "y / z \<le> (1 / 2 ^ 53) / (7 / 8)"
    using y0 y1 z by (intro frac_le) simp_all
  then have q: "y / z \<le> 1 / 2 ^ 52"
    by simp
  have q0: "0 < y / z"
    using y0 z by simp
  have at: "atan2 (- y) z = - arctan (y / z)"
    using z by (simp add: atan2_def arctan_minus)
  have "(1::real) / 2 ^ 52 \<le> 1"
    by simp
  with q have "y / z \<le> 1"
    by linarith
  with q0 have "arctan (y / z) \<le> arctan_sum (y / z) (2 * 0 + 1)"
    by (rule arctan_sum_bounds)
  then have "arctan (y / z) \<le> y / z"
    by (simp add: arctan_sum_def)
  with q have ar2: "arctan (y / z) \<le> 1 / 2 ^ 52"
    by linarith
  have ar1: "0 < arctan (y / z)"
    using q0 by (simp only: zero_less_arctan_iff)
  note ar = ar1 ar2
  have a0: "a < 0"
    unfolding a_def at using ar(1) by (intro round_double_lt_0) simp
  have "round_double (- (1 / 2 ^ 52)) \<le> a"
    unfolding a_def at using ar(2) by (intro round_double_mono) simp
  moreover have "round_double (of_int (- 1) * pow2 (- 52)) = of_int (- 1) * pow2 (- 52)"
    by (rule round_double_representable) simp
  ultimately have a1: "- (1 / 2 ^ 52) \<le> a"
    by (simp add: pow2_neg_numeral)
  have "round_double (a + 2 * Math_PI) = 2 * Math_PI"
    using a0 a1 by (intro round_double_just_below_two_Math_PI) simp_all
  with a0 have w: "wrap_angle_double a = 2 * Math_PI"
    by (simp add: wrap_angle_double_def)
  show ?thesis
    by (simp only: hadamard_angles_double_general [OF g1 g2] snd_conv
        s_def [symmetric] sp_def [symmetric] y_def [symmetric] z_def [symmetric]
        a_def [symmetric] w)
qed

end
